theory Spec2Isabelle
  imports Main "HOL-Library.Word" "HOL-Library.Sublist"
begin

unbundle bit_operations_syntax

section \<open>Data model of package argon\<close>

text \<open>
  Go strings and byte slices are sequences of 8-bit values. A Go \<open>string\<close> is modelled
  as an Isabelle \<open>string\<close> (a list of 8-bit \<open>char\<close>), a \<open>[]byte\<close> as a list of
  \<open>8 word\<close>, \<open>uint32\<close> as \<open>32 word\<close>, \<open>uint8\<close> as \<open>8 word\<close>, and Go's \<open>int\<close>
  and \<open>uint\<close> (64 bits on the supported platforms) as \<open>int\<close> with the range written
  out, respectively \<open>64 word\<close>.
\<close>

type_synonym byte = "8 word"

text \<open>
  The error values the package can return: its three sentinels, the
  \<open>base64.CorruptInputError\<close> of the standard library (which carries the offset of the
  offending byte) and the opaque error of \<open>crypto/rand.Read\<close>.
\<close>

datatype error =
    ErrInvalidHash
  | ErrIncompatibleVersion
  | ErrUnsupportedMode
  | CorruptInputError nat
  | RandReadError

definition ModeArgon2id :: string where
  "ModeArgon2id = ''argon2id''"

definition ModeArgon2i :: string where
  "ModeArgon2i = ''argon2i''"

record Params =
  Memory :: "32 word"
  Iterations :: "32 word"
  Parallelism :: "8 word"
  SaltLength :: "32 word"
  KeyLength :: "32 word"
  Mode :: string

definition DefaultMemory :: "32 word" where
  "DefaultMemory = 64 * 1024"

definition DefaultIterations :: "32 word" where
  "DefaultIterations = 1"

definition DefaultParallelism :: "8 word" where
  "DefaultParallelism = 4"

definition DefaultSaltLength :: "32 word" where
  "DefaultSaltLength = 16"

definition DefaultKeyLength :: "32 word" where
  "DefaultKeyLength = 32"

text \<open>\<open>argon2.Version\<close> of golang.org/x/crypto/argon2 is the constant \<open>0x13\<close>.\<close>

definition argon2_Version :: int where
  "argon2_Version = 19"

section \<open>DefaultParams\<close>

text \<open>
  \<open>DefaultParams\<close> of argon.go. The value of \<open>runtime.NumCPU()\<close> (a Go \<open>int\<close>) is
  the argument; the conversion \<open>uint8(...)\<close> keeps its low eight bits.
\<close>

definition DefaultParams :: "int \<Rightarrow> Params" where
  "DefaultParams numCPU =
     (let p = (word_of_int numCPU :: 8 word);
          p = (if p > DefaultParallelism then DefaultParallelism else p)
      in \<lparr> Memory = DefaultMemory,
           Iterations = DefaultIterations,
           Parallelism = p,
           SaltLength = DefaultSaltLength,
           KeyLength = DefaultKeyLength,
           Mode = ModeArgon2id \<rparr>)"

text \<open>
  The parallelism computed by the earlier revision of the file (src/unnamed/part_000),
  which raises the converted value to 1 before capping it at 4.
\<close>

definition DefaultParams_part_000_parallelism :: "int \<Rightarrow> 8 word" where
  "DefaultParams_part_000_parallelism numCPU =
     (let p = (word_of_int numCPU :: 8 word);
          p = (if p < 1 then 1 else p);
          p = (if p > 4 then 4 else p)
      in p)"

section \<open>Standard library: strings.Split\<close>

text \<open>
  \<open>strings.Split(s, sep)\<close> for a one-byte separator: the text before the first
  occurrence of the separator, then the split of the text after it; a string without
  the separator is returned alone. The result has one element more than \<open>s\<close> has
  separators, so \<open>Split "" "$"\<close> is the one-element list holding the empty string.
\<close>

fun Split :: "string \<Rightarrow> char \<Rightarrow> string list" where
  "Split [] sep = [[]]"
| "Split (c # cs) sep =
     (if c = sep then [] # Split cs sep
      else (case Split cs sep of
              [] \<Rightarrow> [[c]]
            | v # vs \<Rightarrow> (c # v) # vs))"

section \<open>Standard library: fmt.Sscanf\<close>

text \<open>
  \<open>fmt.Sscanf\<close> reads runes from the input. The verbs and literals used by this package
  are ASCII, and an ASCII rune is read exactly when the next input byte is that byte, so
  literals and digits are compared bytewise. Before a number the scanner skips space
  runes: the runes of \<open>fmt\<close>'s \<open>isSpace\<close> table. Each has a single valid UTF-8 encoding,
  and a byte sequence that is not valid UTF-8 is read as U+FFFD, which is no space.
  The table below lists those encodings, newline excluded: \<open>SkipSpace\<close> fails on a newline
  with "unexpected newline", since \<open>Sscanf\<close> does not treat newlines as space.
\<close>

definition space_encodings :: "string list" where
  "space_encodings =
     [[CHR 0x09], [CHR 0x0B], [CHR 0x0C], [CHR 0x0D], [CHR 0x20],
      [CHR 0xC2, CHR 0x85], [CHR 0xC2, CHR 0xA0],
      [CHR 0xE1, CHR 0x9A, CHR 0x80],
      [CHR 0xE2, CHR 0x80, CHR 0x80], [CHR 0xE2, CHR 0x80, CHR 0x81],
      [CHR 0xE2, CHR 0x80, CHR 0x82], [CHR 0xE2, CHR 0x80, CHR 0x83],
      [CHR 0xE2, CHR 0x80, CHR 0x84], [CHR 0xE2, CHR 0x80, CHR 0x85],
      [CHR 0xE2, CHR 0x80, CHR 0x86], [CHR 0xE2, CHR 0x80, CHR 0x87],
      [CHR 0xE2, CHR 0x80, CHR 0x88], [CHR 0xE2, CHR 0x80, CHR 0x89],
      [CHR 0xE2, CHR 0x80, CHR 0x8A],
      [CHR 0xE2, CHR 0x80, CHR 0xA8], [CHR 0xE2, CHR 0x80, CHR 0xA9],
      [CHR 0xE2, CHR 0x80, CHR 0xAF],
      [CHR 0xE2, CHR 0x81, CHR 0x9F],
      [CHR 0xE3, CHR 0x80, CHR 0x80]]"

text \<open>The number of bytes of the space rune the input starts with; 0 if it starts with none.\<close>

definition space_width :: "string \<Rightarrow> nat" where
  "space_width s =
     (case find (\<lambda>e. prefix e s) space_encodings of
        None \<Rightarrow> 0
      | Some e \<Rightarrow> length e)"

function SkipSpace :: "string \<Rightarrow> string option" where
  "SkipSpace s =
     (if s = [] then Some s
      else if hd s = CHR 0x0A then None
      else if space_width s = 0 then Some s
      else SkipSpace (drop (space_width s) s))"
  by pat_completeness auto
termination
  by (relation "measure length") auto

text \<open>
  \<open>decimalDigits\<close> and \<open>sign\<close> of fmt/scan.go, and the value of a token of decimal
  digits as \<open>strconv.ParseUint\<close> accumulates it (\<open>n = n * 10 + d\<close> from the left).
\<close>

definition decimalDigits :: string where
  "decimalDigits = ''0123456789''"

definition sign :: string where
  "sign = ''+-''"

definition digit_val :: "char \<Rightarrow> nat" where
  "digit_val c = of_char c - of_char CHR ''0''"

definition dec_value :: "string \<Rightarrow> nat" where
  "dec_value tok = foldl (\<lambda>n c. n * 10 + digit_val c) 0 tok"

text \<open>
  \<open>scanNumber\<close>: the longest run of digits at the start of the input, which must not be
  empty ("expected integer", or EOF at the end of the input), and the input after it.
\<close>

definition scanNumber :: "string \<Rightarrow> (string \<times> string) option" where
  "scanNumber s =
     (let tok = takeWhile (\<lambda>c. c \<in> set decimalDigits) s
      in if tok = [] then None
         else Some (tok, dropWhile (\<lambda>c. c \<in> set decimalDigits) s))"

text \<open>
  \<open>scanUint(verb = 'd', bitSize)\<close>: skip space, read a digit run, convert it with
  \<open>strconv.ParseUint(tok, 10, 64)\<close> (a range error beyond 64 bits) and reject a value
  that does not fit \<open>bitSize\<close> bits ("unsigned integer overflow"). No sign is accepted.
\<close>

definition scanUint :: "nat \<Rightarrow> string \<Rightarrow> (nat \<times> string) option" where
  "scanUint bitSize s =
     (case SkipSpace s of
        None \<Rightarrow> None
      | Some s1 \<Rightarrow>
          (case scanNumber s1 of
             None \<Rightarrow> None
           | Some (tok, rest) \<Rightarrow>
               (let i = dec_value tok
                in if i \<ge> 2 ^ 64 then None
                   else if i \<ge> 2 ^ bitSize then None
                   else Some (i, rest))))"

text \<open>
  \<open>scanInt(verb = 'd', bitSize = 64)\<close>: skip space, accept one optional sign, read a
  digit run and convert it with \<open>strconv.ParseInt(tok, 10, 64)\<close>, which fails outside
  \<open>-2^63 .. 2^63 - 1\<close>.
\<close>

definition scanInt :: "string \<Rightarrow> (int \<times> string) option" where
  "scanInt s =
     (case SkipSpace s of
        None \<Rightarrow> None
      | Some s1 \<Rightarrow>
          (let neg = (s1 \<noteq> [] \<and> hd s1 = CHR ''-'');
               s2 = (if s1 \<noteq> [] \<and> hd s1 \<in> set sign then tl s1 else s1)
           in case scanNumber s2 of
                None \<Rightarrow> None
              | Some (tok, rest) \<Rightarrow>
                  (let un = dec_value tok
                   in if \<not> neg \<and> un \<ge> 2 ^ 63 then None
                      else if neg \<and> un > 2 ^ 63 then None
                      else Some (if neg then - int un else int un, rest))))"

text \<open>
  The destinations passed to \<open>Sscanf\<close> by this package (\<open>*int\<close>, \<open>*uint32\<close>,
  \<open>*uint8\<close>) and the values stored through them by \<open>scanOne\<close>.
\<close>

datatype operand = IntPtr | Uint32Ptr | Uint8Ptr

datatype scanned = IntVal int | Uint32Val "32 word" | Uint8Val "8 word"

definition scanOne :: "operand \<Rightarrow> string \<Rightarrow> (scanned \<times> string) option" where
  "scanOne a s =
     (case a of
        IntPtr \<Rightarrow> map_option (\<lambda>(i, r). (IntVal i, r)) (scanInt s)
      | Uint32Ptr \<Rightarrow> map_option (\<lambda>(n, r). (Uint32Val (of_nat n), r)) (scanUint 32 s)
      | Uint8Ptr \<Rightarrow> map_option (\<lambda>(n, r). (Uint8Val (of_nat n), r)) (scanUint 8 s))"

text \<open>
  \<open>doScanf\<close> for formats made of literal non-space bytes and the verb \<open>%d\<close>: a literal
  must equal the next input byte (the end of the input is an error); at \<open>%d\<close> space is
  skipped and one operand is scanned. Once the format is used up the scan succeeds:
  input left over is not examined. Operands left over are an error ("too many
  operands"), as is a verb without operand. \<open>None\<close> stands for a non-nil error; the
  package only tests the error against nil.
\<close>

fun doScanf :: "string \<Rightarrow> operand list \<Rightarrow> string \<Rightarrow> scanned list option" where
  "doScanf [] ops inp = (if ops = [] then Some [] else None)"
| "doScanf (f # fs) ops inp =
     (if f = CHR ''%'' then
        (case fs of
           [] \<Rightarrow> None
         | verb # fs' \<Rightarrow>
             if verb \<noteq> CHR ''d'' then None
             else (case SkipSpace inp of
                     None \<Rightarrow> None
                   | Some inp1 \<Rightarrow>
                       (case ops of
                          [] \<Rightarrow> None
                        | a # ops' \<Rightarrow>
                            (case scanOne a inp1 of
                               None \<Rightarrow> None
                             | Some (v, inp2) \<Rightarrow>
                                 map_option (\<lambda>vs. v # vs) (doScanf fs' ops' inp2)))))
      else
        (case inp of
           [] \<Rightarrow> None
         | c # inp' \<Rightarrow> if f = c then doScanf fs ops inp' else None))"

definition Sscanf :: "string \<Rightarrow> string \<Rightarrow> operand list \<Rightarrow> scanned list option" where
  "Sscanf str format ops = doScanf format ops str"

section \<open>Standard library: fmt.Sprintf with %d\<close>

text \<open>
  \<open>fmtInteger\<close> in base 10: the last digit is \<open>u - (u / 10) * 10\<close>, the digits before
  it are those of \<open>u / 10\<close>; a negative signed value is written as \<open>-\<close> and its
  magnitude.
\<close>

definition digit_char :: "nat \<Rightarrow> char" where
  "digit_char d = char_of (of_char CHR ''0'' + d)"

function fmt_u :: "nat \<Rightarrow> string" where
  "fmt_u u = (if u \<ge> 10 then fmt_u (u div 10) @ [digit_char (u - (u div 10) * 10)]
              else [digit_char u])"
  by pat_completeness auto
termination
  by (relation "measure id") auto

definition fmt_d :: "int \<Rightarrow> string" where
  "fmt_d i = (if i < 0 then CHR ''-'' # fmt_u (nat (- i)) else fmt_u (nat i))"

section \<open>Standard library: base64.RawStdEncoding\<close>

definition encodeStd :: string where
  "encodeStd = ''ABCDEFGHIJKLMNOPQRSTUVWXYZabcdefghijklmnopqrstuvwxyz0123456789+/''"

text \<open>\<open>enc.encode[v]\<close>; every use masks the index with \<open>0x3F\<close>.\<close>

definition encode_byte :: "64 word \<Rightarrow> char" where
  "encode_byte v = encodeStd ! unat v"

text \<open>
  \<open>enc.decodeMap\<close>: 256 entries, \<open>0xFF\<close> except at the bytes of the alphabet, which map
  to their position (\<open>decodeMap[encoder[i]] = uint8(i)\<close>). \<open>decodeMap_from\<close> looks the
  position up, counting from \<open>i\<close>.
\<close>

fun decodeMap_from :: "string \<Rightarrow> byte \<Rightarrow> char \<Rightarrow> byte" where
  "decodeMap_from [] i c = 0xFF"
| "decodeMap_from (e # es) i c = (if c = e then i else decodeMap_from es (i + 1) c)"

definition decodeMap :: "char \<Rightarrow> byte" where
  "decodeMap c = decodeMap_from encodeStd 0 c"

text \<open>
  \<open>Encode\<close>: three source bytes give four characters; a remainder of two bytes gives
  three characters and a remainder of one byte gives two, with no padding character
  (\<open>padChar = NoPadding\<close>).
\<close>

fun EncodeToString :: "byte list \<Rightarrow> string" where
  "EncodeToString (a # b # c # src) =
     (let val = push_bit 16 (ucast a) OR push_bit 8 (ucast b) OR ucast c :: 64 word
      in encode_byte (drop_bit 18 val AND 0x3F) #
         encode_byte (drop_bit 12 val AND 0x3F) #
         encode_byte (drop_bit 6 val AND 0x3F) #
         encode_byte (val AND 0x3F) #
         EncodeToString src)"
| "EncodeToString [a, b] =
     (let val = push_bit 16 (ucast a) OR push_bit 8 (ucast b) :: 64 word
      in [encode_byte (drop_bit 18 val AND 0x3F),
          encode_byte (drop_bit 12 val AND 0x3F),
          encode_byte (drop_bit 6 val AND 0x3F)])"
| "EncodeToString [a] =
     (let val = push_bit 16 (ucast a) :: 64 word
      in [encode_byte (drop_bit 18 val AND 0x3F),
          encode_byte (drop_bit 12 val AND 0x3F)])"
| "EncodeToString [] = []"

text \<open>
  The loop of \<open>decodeQuantum\<close> for \<open>padChar = NoPadding\<close>, started at slot \<open>j\<close> with
  the input from offset \<open>si\<close> on: it gathers up to four 6-bit values, skipping
  \<open>\r\<close> and \<open>\n\<close>. Any other byte outside the alphabet (\<open>=\<close> included) is
  \<open>CorruptInputError(si)\<close> at its offset. At the end of the input nothing gathered is
  fine, a single value is \<open>CorruptInputError(si - j)\<close>, two or three values form a short
  final quantum. The result is the values gathered, the new offset and the input left.
\<close>

fun quantum_loop :: "nat \<Rightarrow> nat \<Rightarrow> string \<Rightarrow> error + (byte list \<times> nat \<times> string)" where
  "quantum_loop j si [] =
     (if j \<ge> 4 then Inr ([], si, [])
      else if j = 0 then Inr ([], si, [])
      else if j = 1 then Inl (CorruptInputError (si - j))
      else Inr ([], si, []))"
| "quantum_loop j si (c # src) =
     (if j \<ge> 4 then Inr ([], si, c # src)
      else
        let out = decodeMap c in
        if out \<noteq> 0xFF then
          (case quantum_loop (j + 1) (si + 1) src of
             Inl e \<Rightarrow> Inl e
           | Inr (dbuf, nsi, rest) \<Rightarrow> Inr (out # dbuf, nsi, rest))
        else if c = CHR 0x0A \<or> c = CHR 0x0D then quantum_loop j (si + 1) src
        else Inl (CorruptInputError si))"

text \<open>
  The end of \<open>decodeQuantum\<close>: the \<open>dlen\<close> values gathered (missing ones are 0) are
  packed into 24 bits, of which the first \<open>dlen - 1\<close> bytes are written. The encoding
  is not strict, so the unused low bits of a short quantum are not checked.
\<close>

definition quantum_bytes :: "byte list \<Rightarrow> byte list" where
  "quantum_bytes ds =
     (let dbuf = ds @ replicate (4 - length ds) 0;
          val = push_bit 18 (ucast (dbuf ! 0)) OR push_bit 12 (ucast (dbuf ! 1)) OR
                push_bit 6 (ucast (dbuf ! 2)) OR ucast (dbuf ! 3) :: 64 word
      in take (length ds - 1)
           [ucast (drop_bit 16 val), ucast (drop_bit 8 val), ucast val])"

definition decodeQuantum :: "nat \<Rightarrow> string \<Rightarrow> error + (byte list \<times> nat \<times> string)" where
  "decodeQuantum si src =
     (case quantum_loop 0 si src of
        Inl e \<Rightarrow> Inl e
      | Inr (ds, nsi, rest) \<Rightarrow> Inr (quantum_bytes ds, nsi, rest))"

text \<open>
  \<open>Decode\<close>: quanta are decoded while input is left (\<open>for si < len(src)\<close>); the first
  error ends the decoding. The 8-byte and 4-byte fast paths of the Go function compute
  the same bytes as \<open>decodeQuantum\<close> on characters of the alphabet and fall back to it
  otherwise.
\<close>

function Decode :: "nat \<Rightarrow> string \<Rightarrow> error + byte list" where
  "Decode si src =
     (if src = [] then Inr []
      else (case decodeQuantum si src of
              Inl e \<Rightarrow> Inl e
            | Inr (bs, nsi, rest) \<Rightarrow>
                (case Decode nsi rest of
                   Inl e \<Rightarrow> Inl e
                 | Inr bs2 \<Rightarrow> Inr (bs @ bs2))))"
  by pat_completeness auto
termination
proof -
  have shorter: "quantum_loop j i s = Inr (ds, i', r) \<Longrightarrow>
      length r \<le> length s \<and> (j < 4 \<and> s \<noteq> [] \<longrightarrow> length r < length s)"
    for j i s ds i' r
  proof (induction j i s arbitrary: ds i' r rule: quantum_loop.induct)
    case (1 j si)
    then show ?case by (simp split: if_splits)
  next
    case (2 j si c src)
    then show ?case
      by (fastforce simp: Let_def split: if_splits sum.splits prod.splits)
  qed
  have step: "decodeQuantum si src = Inr (bs, nsi, rest) \<Longrightarrow> src \<noteq> [] \<Longrightarrow>
      length rest < length src" for si src bs nsi rest
    using shorter [of 0 si src _ nsi rest]
    by (auto simp: decodeQuantum_def split: sum.splits prod.splits)
  show ?thesis
    by (relation "measure (\<lambda>(si, src). length src)") (auto dest: step)
qed

definition DecodeString :: "string \<Rightarrow> error + byte list" where
  "DecodeString s = Decode 0 s"

section \<open>Standard library: crypto/subtle and crypto/rand\<close>

text \<open>\<open>ConstantTimeByteEq(x, y) = int((uint32(x ^ y) - 1) >> 31)\<close>.\<close>

definition ConstantTimeByteEq :: "byte \<Rightarrow> byte \<Rightarrow> int" where
  "ConstantTimeByteEq x y = uint (drop_bit 31 ((ucast (x XOR y) :: 32 word) - 1))"

text \<open>
  \<open>ConstantTimeCompare\<close>: 0 for slices of different lengths; otherwise the XOR of every
  pair of bytes is OR-ed into one byte, which is compared with 0.
\<close>

definition ConstantTimeCompare :: "byte list \<Rightarrow> byte list \<Rightarrow> int" where
  "ConstantTimeCompare x y =
     (if length x \<noteq> length y then 0
      else ConstantTimeByteEq (foldl (\<lambda>v (a, b). v OR (a XOR b)) 0 (zip x y)) 0)"

text \<open>
  \<open>rand.Read(salt)\<close> on a fresh slice of \<open>n\<close> bytes: the source of randomness either
  fails or fills the whole slice. \<open>None\<close> is the failing source, \<open>Some f\<close> the source
  that delivers the byte \<open>f i\<close> at position \<open>i\<close>.
\<close>

type_synonym rand_source = "(nat \<Rightarrow> byte) option"

definition rand_Read :: "rand_source \<Rightarrow> nat \<Rightarrow> error + byte list" where
  "rand_Read rnd n =
     (case rnd of
        None \<Rightarrow> Inl RandReadError
      | Some f \<Rightarrow> Inr (map f [0 ..< n]))"

section \<open>The package: HashWithParams, Verify, decodeHash\<close>

text \<open>
  The key derivation functions \<open>argon2.Key\<close> and \<open>argon2.IDKey\<close> of
  golang.org/x/crypto/argon2 are external. The bytes they return are parameters of the
  model, with the argument order of the Go functions: password, salt, time, memory,
  threads, keyLen.
\<close>

type_synonym kdf =
  "byte list \<Rightarrow> byte list \<Rightarrow> 32 word \<Rightarrow> 32 word \<Rightarrow> 8 word \<Rightarrow> 32 word \<Rightarrow> byte list"

text \<open>
  Both Go functions panic instead of returning when \<open>time < 1\<close> ("argon2: number of
  rounds too small"), when \<open>threads < 1\<close> ("argon2: parallelism degree too low") and
  when \<open>keyLen = 0\<close> (the final BLAKE2b hash of size 0 cannot be created and the nil
  hash is written to). The package does not recover from a panic, so a call of
  \<open>HashWithParams\<close> or \<open>Verify\<close> that reaches such a call has no result: \<open>Panic\<close>.
  A memory parameter of 0 is no panic: the function raises it to its minimum. Running
  out of memory for a large memory parameter or salt length is not modelled.
\<close>

datatype 'a outcome = Panic | Return 'a

definition argon2_call ::
  "kdf \<Rightarrow> byte list \<Rightarrow> byte list \<Rightarrow> 32 word \<Rightarrow> 32 word \<Rightarrow> 8 word \<Rightarrow> 32 word \<Rightarrow>
   byte list outcome" where
  "argon2_call f password salt time memory threads keyLen =
     (if time < 1 \<or> threads < 1 \<or> keyLen < 1 then Panic
      else Return (f password salt time memory threads keyLen))"

text \<open>The conversion \<open>[]byte(password)\<close>.\<close>

definition bytes_of :: "string \<Rightarrow> byte list" where
  "bytes_of s = map of_char s"

text \<open>
  Lines 122 to 127 of argon.go, the encoder:
  \<open>Sprintf("$%s$v=%d$m=%d,t=%d,p=%d$%s$%s", mode, argon2.Version, p.Memory,
  p.Iterations, p.Parallelism, b64Salt, b64Hash)\<close>.
\<close>

definition encodeHash :: "string \<Rightarrow> Params \<Rightarrow> byte list \<Rightarrow> byte list \<Rightarrow> string" where
  "encodeHash mode p salt hash =
     (let b64Salt = EncodeToString salt;
          b64Hash = EncodeToString hash
      in ''$'' @ mode @ ''$v='' @ fmt_d argon2_Version @
         ''$m='' @ fmt_d (uint (Memory p)) @ '',t='' @ fmt_d (uint (Iterations p)) @
         '',p='' @ fmt_d (uint (Parallelism p)) @ ''$'' @ b64Salt @ ''$'' @ b64Hash)"

definition HashWithParams ::
  "kdf \<Rightarrow> kdf \<Rightarrow> rand_source \<Rightarrow> string \<Rightarrow> Params \<Rightarrow> (error + string) outcome" where
  "HashWithParams argon2_Key argon2_IDKey rnd password p =
     (case rand_Read rnd (unat (SaltLength p)) of
        Inl err \<Rightarrow> Return (Inl err)
      | Inr salt \<Rightarrow>
          (let mode = (if Mode p = [] then ModeArgon2id else Mode p)
           in if mode = ModeArgon2i then
                (case argon2_call argon2_Key (bytes_of password) salt (Iterations p)
                        (Memory p) (Parallelism p) (KeyLength p) of
                   Panic \<Rightarrow> Panic
                 | Return hash \<Rightarrow> Return (Inr (encodeHash mode p salt hash)))
              else if mode = ModeArgon2id then
                (case argon2_call argon2_IDKey (bytes_of password) salt (Iterations p)
                        (Memory p) (Parallelism p) (KeyLength p) of
                   Panic \<Rightarrow> Panic
                 | Return hash \<Rightarrow> Return (Inr (encodeHash mode p salt hash)))
              else Return (Inl ErrUnsupportedMode)))"

definition Hash ::
  "kdf \<Rightarrow> kdf \<Rightarrow> rand_source \<Rightarrow> int \<Rightarrow> string \<Rightarrow> (error + string) outcome" where
  "Hash argon2_Key argon2_IDKey rnd numCPU password =
     HashWithParams argon2_Key argon2_IDKey rnd password (DefaultParams numCPU)"

definition decodeHash :: "string \<Rightarrow> error + (Params \<times> byte list \<times> byte list)" where
  "decodeHash encodedHash =
     (let vals = Split encodedHash CHR ''$'' in
      if length vals \<noteq> 6 then Inl ErrInvalidHash
      else
        (case Sscanf (vals ! 2) ''v=%d'' [IntPtr] of
           Some [IntVal version] \<Rightarrow>
             if version \<noteq> argon2_Version then Inl ErrIncompatibleVersion
             else
               let mode = vals ! 1 in
               if mode \<noteq> ModeArgon2id \<and> mode \<noteq> ModeArgon2i then Inl ErrUnsupportedMode
               else
                 (case Sscanf (vals ! 3) ''m=%d,t=%d,p=%d'' [Uint32Ptr, Uint32Ptr, Uint8Ptr] of
                    Some [Uint32Val m, Uint32Val t, Uint8Val l] \<Rightarrow>
                      let p = \<lparr> Memory = m, Iterations = t, Parallelism = l,
                                SaltLength = 0, KeyLength = 0, Mode = mode \<rparr>
                      in if Memory p < 1 \<or> Iterations p < 1 \<or> Parallelism p < 1
                         then Inl ErrInvalidHash
                         else
                           (case DecodeString (vals ! 4) of
                              Inl err \<Rightarrow> Inl err
                            | Inr salt \<Rightarrow>
                                let p = p\<lparr> SaltLength := of_nat (length salt) \<rparr>
                                in (case DecodeString (vals ! 5) of
                                      Inl err \<Rightarrow> Inl err
                                    | Inr hash \<Rightarrow>
                                        let p = p\<lparr> KeyLength := of_nat (length hash) \<rparr>
                                        in Inr (p, salt, hash)))
                  | _ \<Rightarrow> Inl ErrInvalidHash)
         | _ \<Rightarrow> Inl ErrInvalidHash))"

text \<open>
  \<open>Verify\<close> returns a pair in Go: the match and the error (\<open>None\<close> for \<open>nil\<close>).
\<close>

definition Verify ::
  "kdf \<Rightarrow> kdf \<Rightarrow> string \<Rightarrow> string \<Rightarrow> (bool \<times> error option) outcome" where
  "Verify argon2_Key argon2_IDKey password encodedHash =
     (case decodeHash encodedHash of
        Inl err \<Rightarrow> Return (False, Some err)
      | Inr (p, salt, hash) \<Rightarrow>
          (let mode = (if Mode p = [] then ModeArgon2id else Mode p)
           in if mode = ModeArgon2i then
                (case argon2_call argon2_Key (bytes_of password) salt (Iterations p)
                        (Memory p) (Parallelism p) (KeyLength p) of
                   Panic \<Rightarrow> Panic
                 | Return otherHash \<Rightarrow>
                     if ConstantTimeCompare hash otherHash = 1 then Return (True, None)
                     else Return (False, None))
              else if mode = ModeArgon2id then
                (case argon2_call argon2_IDKey (bytes_of password) salt (Iterations p)
                        (Memory p) (Parallelism p) (KeyLength p) of
                   Panic \<Rightarrow> Panic
                 | Return otherHash \<Rightarrow>
                     if ConstantTimeCompare hash otherHash = 1 then Return (True, None)
                     else Return (False, None))
              else Return (False, Some ErrUnsupportedMode)))"

section \<open>Collaborators for concrete runs\<close>

text \<open>
  A key derivation function and a source of randomness on which the package can be run
  at concrete inputs. \<open>sample_kdf\<close> is deterministic and returns \<open>keyLen\<close> bytes, the
  first bytes of password and salt; \<open>sample_rand\<close> delivers the bytes 0, 1, 2, ...
\<close>

definition sample_kdf :: kdf where
  "sample_kdf password salt time memory threads keyLen =
     take (unat keyLen) (password @ salt @ replicate (unat keyLen) 0)"

definition sample_rand :: rand_source where
  "sample_rand = Some of_nat"

section \<open>Notions of the specification\<close>

text \<open>
  A string is valid unpadded standard base64 when it is the unpadded standard encoding
  of some byte string.
\<close>

definition raw_std_base64 :: "string \<Rightarrow> bool" where
  "raw_std_base64 v \<longleftrightarrow> (\<exists>bs. v = EncodeToString bs)"

text \<open>
  What \<open>RawStdEncoding\<close> rejects, in terms of the text alone: a byte that is neither in
  the alphabet nor \<open>\r\<close> or \<open>\n\<close>, or a number of alphabet characters that leaves a
  single character for the last quantum.
\<close>

definition corrupt_base64 :: "string \<Rightarrow> bool" where
  "corrupt_base64 v \<longleftrightarrow>
     (\<exists>c \<in> set v. c \<notin> set encodeStd \<and> c \<noteq> CHR 0x0A \<and> c \<noteq> CHR 0x0D) \<or>
     length (filter (\<lambda>c. c \<in> set encodeStd) v) mod 4 = 1"

text \<open>
  The shapes of the version and parameter segments that \<open>Sscanf\<close> accepts. \<open>blanks\<close>
  is a run of space runes other than newline; \<open>digit_run\<close> a non-empty run of decimal
  digits; \<open>ends_number\<close> says that the text after a number does not go on with a digit.
\<close>

definition blanks :: "string \<Rightarrow> bool" where
  "blanks ws \<longleftrightarrow> (\<exists>es. set es \<subseteq> set space_encodings \<and> ws = concat es)"

definition digit_run :: "string \<Rightarrow> bool" where
  "digit_run ds \<longleftrightarrow> ds \<noteq> [] \<and> set ds \<subseteq> set decimalDigits"

definition ends_number :: "string \<Rightarrow> bool" where
  "ends_number rest \<longleftrightarrow> rest = [] \<or> hd rest \<notin> set decimalDigits"

text \<open>
  \<open>v=\<close>, blanks, an optional sign and digits denoting a value of the 64-bit \<open>int\<close>;
  any text may follow.
\<close>

definition version_form :: "string \<Rightarrow> bool" where
  "version_form seg \<longleftrightarrow>
     (\<exists>ws sg ds rest.
        seg = ''v='' @ ws @ sg @ ds @ rest \<and> blanks ws \<and>
        (sg = [] \<or> sg = ''+'' \<or> sg = ''-'') \<and> digit_run ds \<and> ends_number rest \<and>
        (if sg = ''-'' then dec_value ds \<le> 2 ^ 63 else dec_value ds < 2 ^ 63))"

text \<open>
  \<open>m=\<close>, \<open>,t=\<close> and \<open>,p=\<close> in this order, each followed by blanks and digits denoting
  a value of the field (\<open>uint32\<close>, \<open>uint32\<close>, \<open>uint8\<close>); any text may follow.
\<close>

definition params_form :: "string \<Rightarrow> bool" where
  "params_form seg \<longleftrightarrow>
     (\<exists>w1 d1 w2 d2 w3 d3 rest.
        seg = ''m='' @ w1 @ d1 @ '',t='' @ w2 @ d2 @ '',p='' @ w3 @ d3 @ rest \<and>
        blanks w1 \<and> digit_run d1 \<and> dec_value d1 < 2 ^ 32 \<and>
        blanks w2 \<and> digit_run d2 \<and> dec_value d2 < 2 ^ 32 \<and>
        blanks w3 \<and> digit_run d3 \<and> dec_value d3 < 2 ^ 8 \<and> ends_number rest)"

section \<open>Evaluation and shape of the scanner, the decoder and decodeHash\<close>

declare SkipSpace.simps [simp del] fmt_u.simps [simp del] Decode.simps [simp del]

lemma SkipSpace_Nil [simp]: "SkipSpace [] = Some []"
  by (simp add: SkipSpace.simps)

lemma space_encodings_nonempty: "e \<in> set space_encodings \<Longrightarrow> e \<noteq> []"
  by (auto simp: space_encodings_def)

lemma space_width_zero_iff:
  "space_width s = 0 \<longleftrightarrow> (\<forall>e \<in> set space_encodings. \<not> prefix e s)"
proof (cases "find (\<lambda>e. prefix e s) space_encodings")
  case None
  then have "\<forall>e \<in> set space_encodings. \<not> prefix e s"
    by (simp add: find_None_iff)
  with None show ?thesis
    by (simp add: space_width_def)
next
  case (Some e)
  then have "e \<in> set space_encodings" "prefix e s"
    by (auto simp: find_Some_iff)
  with Some show ?thesis
    using space_encodings_nonempty [of e] by (auto simp: space_width_def)
qed

lemma space_width_prefix:
  "space_width s \<noteq> 0 \<Longrightarrow> take (space_width s) s \<in> set space_encodings"
proof -
  assume "space_width s \<noteq> 0"
  then obtain e where e: "find (\<lambda>e. prefix e s) space_encodings = Some e"
    by (auto simp: space_width_def split: option.splits)
  then have "e \<in> set space_encodings" "prefix e s"
    by (auto simp: find_Some_iff)
  moreover from e have "space_width s = length e"
    by (simp add: space_width_def)
  ultimately show ?thesis
    by (auto simp: prefix_def)
qed

lemma space_width_first:
  assumes "c \<notin> set (map hd space_encodings)"
  shows "space_width (c # cs) = 0"
proof -
  have "\<not> prefix e (c # cs)" if "e \<in> set space_encodings" for e
  proof (cases e)
    case Nil
    with that show ?thesis using space_encodings_nonempty by blast
  next
    case (Cons x xs)
    with that have "x \<in> set (map hd space_encodings)" by force
    with assms have "x \<noteq> c" by blast
    with Cons show ?thesis by simp
  qed
  then show ?thesis by (simp add: space_width_zero_iff)
qed

lemma SkipSpace_nonspace:
  "c \<noteq> CHR 0x0A \<Longrightarrow> c \<notin> set (map hd space_encodings) \<Longrightarrow> SkipSpace (c # cs) = Some (c # cs)"
  by (subst SkipSpace.simps) (simp add: space_width_first)

lemma digit_not_space:
  "c \<in> set decimalDigits \<Longrightarrow> c \<noteq> CHR 0x0A \<and> c \<notin> set (map hd space_encodings)"
  by (auto simp: decimalDigits_def space_encodings_def)

lemma Sscanf_v_shape:
  "Sscanf s ''v=%d'' [IntPtr] = None \<or> (\<exists>n. Sscanf s ''v=%d'' [IntPtr] = Some [IntVal n])"
  by (auto simp: Sscanf_def scanOne_def split: list.splits option.splits)

lemma Sscanf_mtp_shape:
  "Sscanf s ''m=%d,t=%d,p=%d'' [Uint32Ptr, Uint32Ptr, Uint8Ptr] = None \<or>
   (\<exists>m t l. Sscanf s ''m=%d,t=%d,p=%d'' [Uint32Ptr, Uint32Ptr, Uint8Ptr] =
      Some [Uint32Val m, Uint32Val t, Uint8Val l])"
  by (auto simp: Sscanf_def scanOne_def split: list.splits option.splits)

lemma Decode_Nil [simp]: "Decode si [] = Inr []"
  by (simp add: Decode.simps)

lemma Decode_Cons:
  "Decode si (c # cs) =
     (case decodeQuantum si (c # cs) of
        Inl e \<Rightarrow> Inl e
      | Inr (bs, nsi, rest) \<Rightarrow>
          (case Decode nsi rest of Inl e \<Rightarrow> Inl e | Inr bs2 \<Rightarrow> Inr (bs @ bs2)))"
  by (subst Decode.simps) simp

lemma SkipSpace_Cons:
  "SkipSpace (c # cs) =
     (if c = CHR 0x0A then None
      else if space_width (c # cs) = 0 then Some (c # cs)
      else SkipSpace (drop (space_width (c # cs)) (c # cs)))"
  by (subst SkipSpace.simps) simp

lemmas scan_eval =
  Sscanf_def scanOne_def scanInt_def scanUint_def scanNumber_def SkipSpace_Cons
  space_width_def space_encodings_def sign_def decimalDigits_def dec_value_def digit_val_def

lemmas base64_eval =
  DecodeString_def Decode_Cons decodeQuantum_def quantum_bytes_def decodeMap_def encodeStd_def
  encode_byte_def

lemmas decode_eval =
  decodeHash_def Let_def ModeArgon2id_def ModeArgon2i_def argon2_Version_def scan_eval base64_eval

lemma decodeHash_version_unparsed:
  assumes "Split s CHR ''$'' = [v0, v1, v2, v3, v4, v5]"
    and "Sscanf v2 ''v=%d'' [IntPtr] = None"
  shows "decodeHash s = Inl ErrInvalidHash"
  using assms by (simp add: decodeHash_def)

lemma decodeHash_version_other:
  assumes "Split s CHR ''$'' = [v0, v1, v2, v3, v4, v5]"
    and "Sscanf v2 ''v=%d'' [IntPtr] = Some [IntVal n]" and "n \<noteq> 19"
  shows "decodeHash s = Inl ErrIncompatibleVersion"
  using assms by (simp add: decodeHash_def argon2_Version_def)

lemma decodeHash_mode_other:
  assumes "Split s CHR ''$'' = [v0, v1, v2, v3, v4, v5]"
    and "Sscanf v2 ''v=%d'' [IntPtr] = Some [IntVal 19]"
    and "v1 \<noteq> ModeArgon2id" and "v1 \<noteq> ModeArgon2i"
  shows "decodeHash s = Inl ErrUnsupportedMode"
  using assms by (simp add: decodeHash_def argon2_Version_def)

lemma decodeHash_params_unparsed:
  assumes "Split s CHR ''$'' = [v0, v1, v2, v3, v4, v5]"
    and "Sscanf v2 ''v=%d'' [IntPtr] = Some [IntVal 19]"
    and "v1 = ModeArgon2id \<or> v1 = ModeArgon2i"
    and "Sscanf v3 ''m=%d,t=%d,p=%d'' [Uint32Ptr, Uint32Ptr, Uint8Ptr] = None"
  shows "decodeHash s = Inl ErrInvalidHash"
  using assms by (auto simp: decodeHash_def argon2_Version_def)

lemma decodeHash_params_parsed:
  assumes "Split s CHR ''$'' = [v0, v1, v2, v3, v4, v5]"
    and "Sscanf v2 ''v=%d'' [IntPtr] = Some [IntVal 19]"
    and "v1 = ModeArgon2id \<or> v1 = ModeArgon2i"
    and "Sscanf v3 ''m=%d,t=%d,p=%d'' [Uint32Ptr, Uint32Ptr, Uint8Ptr] =
           Some [Uint32Val m, Uint32Val t, Uint8Val l]"
  shows "decodeHash s =
     (if m < 1 \<or> t < 1 \<or> l < 1 then Inl ErrInvalidHash
      else case DecodeString v4 of
             Inl err \<Rightarrow> Inl err
           | Inr salt \<Rightarrow>
               (case DecodeString v5 of
                  Inl err \<Rightarrow> Inl err
                | Inr hash \<Rightarrow>
                    Inr (\<lparr> Memory = m, Iterations = t, Parallelism = l,
                           SaltLength = of_nat (length salt),
                           KeyLength = of_nat (length hash), Mode = v1 \<rparr>, salt, hash)))"
  using assms by (auto simp: decodeHash_def argon2_Version_def Let_def split: sum.splits)

lemma length_six:
  assumes "length xs = 6"
  shows "\<exists>a b c d e f. xs = [a, b, c, d, e, f]"
proof -
  from assms obtain a r1 where "xs = a # r1" "length r1 = 5" by (cases xs) auto
  moreover then obtain b r2 where "r1 = b # r2" "length r2 = 4" by (cases r1) auto
  moreover then obtain c r3 where "r2 = c # r3" "length r3 = 3" by (cases r2) auto
  moreover then obtain d r4 where "r3 = d # r4" "length r4 = 2" by (cases r3) auto
  moreover then obtain e r5 where "r4 = e # r5" "length r5 = 1" by (cases r4) auto
  moreover then obtain f where "r5 = [f]" by (cases r5) auto
  ultimately show ?thesis by blast
qed

lemma decodeHash_success:
  assumes "decodeHash s = Inr (q, salt, hash)"
  shows "\<exists>v0 v1 v2 v3 v4 v5.
     Split s CHR ''$'' = [v0, v1, v2, v3, v4, v5] \<and>
     Sscanf v2 ''v=%d'' [IntPtr] = Some [IntVal 19] \<and>
     (v1 = ModeArgon2id \<or> v1 = ModeArgon2i) \<and>
     Sscanf v3 ''m=%d,t=%d,p=%d'' [Uint32Ptr, Uint32Ptr, Uint8Ptr] =
       Some [Uint32Val (Memory q), Uint32Val (Iterations q), Uint8Val (Parallelism q)] \<and>
     1 \<le> Memory q \<and> 1 \<le> Iterations q \<and> 1 \<le> Parallelism q \<and>
     DecodeString v4 = Inr salt \<and> DecodeString v5 = Inr hash \<and>
     Mode q = v1 \<and> SaltLength q = of_nat (length salt) \<and> KeyLength q = of_nat (length hash)"
proof -
  have "length (Split s CHR ''$'') = 6"
    using assms by (auto simp: decodeHash_def Let_def split: if_splits)
  then obtain v0 v1 v2 v3 v4 v5 where sp: "Split s CHR ''$'' = [v0, v1, v2, v3, v4, v5]"
    using length_six by blast
  from Sscanf_v_shape [of v2] obtain n where v: "Sscanf v2 ''v=%d'' [IntPtr] = Some [IntVal n]"
    using decodeHash_version_unparsed [OF sp] assms by auto
  have n: "n = 19"
    using decodeHash_version_other [OF sp v] assms by auto
  have md: "v1 = ModeArgon2id \<or> v1 = ModeArgon2i"
    using decodeHash_mode_other [OF sp v [unfolded n]] assms by auto
  from Sscanf_mtp_shape [of v3] obtain m t l where
    ps: "Sscanf v3 ''m=%d,t=%d,p=%d'' [Uint32Ptr, Uint32Ptr, Uint8Ptr] =
           Some [Uint32Val m, Uint32Val t, Uint8Val l]"
    using decodeHash_params_unparsed [OF sp v [unfolded n] md] assms by auto
  note eq = decodeHash_params_parsed [OF sp v [unfolded n] md ps]
  from eq assms have ok: "\<not> (m < 1 \<or> t < 1 \<or> l < 1)"
    by (auto split: if_splits)
  with eq assms obtain salt' where s4: "DecodeString v4 = Inr salt'"
    by (auto split: sum.splits)
  with eq assms ok obtain hash' where s5: "DecodeString v5 = Inr hash'"
    by (auto split: sum.splits)
  from eq assms ok s4 s5 have
    "q = \<lparr> Memory = m, Iterations = t, Parallelism = l, SaltLength = of_nat (length salt),
           KeyLength = of_nat (length hash), Mode = v1 \<rparr>" "salt' = salt" "hash' = hash"
    by auto
  moreover from ok have "1 \<le> m" "1 \<le> t" "1 \<le> l"
    by (simp_all only: de_Morgan_disj not_less)
  ultimately show ?thesis
    using sp v n md ps s4 s5 by simp
qed

lemma quantum_loop_error:
  "quantum_loop j si src = Inl e \<Longrightarrow> \<exists>k. e = CorruptInputError k"
  by (induction j si src rule: quantum_loop.induct)
     (auto simp: Let_def split: if_splits sum.splits)

lemma Decode_error:
  "Decode si src = Inl e \<Longrightarrow> \<exists>k. e = CorruptInputError k"
proof (induction si src rule: Decode.induct)
  case (1 si src)
  show ?case
  proof (cases "decodeQuantum si src")
    case (Inl e')
    with "1.prems" have "src \<noteq> []" "e' = e"
      by (auto simp: Decode.simps [of si src] split: if_splits)
    with Inl show ?thesis
      by (auto simp: decodeQuantum_def split: sum.splits dest: quantum_loop_error)
  next
    case (Inr r)
    obtain bs nsi rest where r: "r = (bs, nsi, rest)" by (cases r) auto
    from "1.prems" have ne: "src \<noteq> []"
      by (auto simp: Decode.simps [of si src] split: if_splits)
    with "1.prems" Inr r have "Decode nsi rest = Inl e"
      by (auto simp: Decode.simps [of si src] split: sum.splits)
    with "1.IH" [OF ne Inr r [symmetric] refl] show ?thesis by simp
  qed
qed

lemma DecodeString_error:
  "DecodeString v = Inl e \<Longrightarrow> \<exists>k. e = CorruptInputError k"
  by (simp add: DecodeString_def Decode_error)

lemma Split_no_sep: "sep \<notin> set a \<Longrightarrow> Split a sep = [a]"
  by (induction a) auto

lemma Split_append: "sep \<notin> set a \<Longrightarrow> Split (a @ sep # r) sep = a # Split r sep"
  by (induction a) auto

lemma Verify_decode_error:
  "decodeHash s = Inl e \<Longrightarrow> Verify K I pw s = Return (False, Some e)"
  by (simp add: Verify_def)

lemma digit_char_table:
  "digit_char 0 = CHR ''0''" "digit_char 1 = CHR ''1''" "digit_char 2 = CHR ''2''"
  "digit_char 3 = CHR ''3''" "digit_char 4 = CHR ''4''" "digit_char 5 = CHR ''5''"
  "digit_char 6 = CHR ''6''" "digit_char 7 = CHR ''7''" "digit_char 8 = CHR ''8''"
  "digit_char 9 = CHR ''9''" "digit_char (Suc 0) = CHR ''1''"
  by (simp_all add: digit_char_def char_of_def bit_0)

lemma digit_char_cases:
  assumes "d < 10"
  shows "d \<in> {0, 1, 2, 3, 4, 5, 6, 7, 8, 9 :: nat}"
  using assms by auto

lemma digit_char_digit: "d < 10 \<Longrightarrow> digit_char d \<in> set decimalDigits"
  using digit_char_cases [of d] by (auto simp: digit_char_table decimalDigits_def)

lemma digit_val_digit_char: "d < 10 \<Longrightarrow> digit_val (digit_char d) = d"
  by (simp add: digit_val_def digit_char_def)

section \<open>base64: decoding what was encoded\<close>

lemma decodeMap_from_nth:
  "distinct es \<Longrightarrow> n < length es \<Longrightarrow> decodeMap_from es i (es ! n) = i + of_nat n"
proof (induction es arbitrary: i n)
  case Nil
  then show ?case by simp
next
  case (Cons e es)
  show ?case
  proof (cases n)
    case 0
    then show ?thesis by simp
  next
    case (Suc m)
    with Cons.prems have "es ! m \<noteq> e" "m < length es" "distinct es"
      by auto
    with Cons.IH [of m "i + 1"] Suc show ?thesis
      by simp
  qed
qed

lemma distinct_encodeStd: "distinct encodeStd"
  by (simp add: encodeStd_def)

lemma length_encodeStd: "length encodeStd = 64"
  by (simp add: encodeStd_def)

lemma decodeMap_encode_byte:
  assumes "v < 64"
  shows "decodeMap (encode_byte v) = ucast v" and "decodeMap (encode_byte v) \<noteq> 0xFF"
proof -
  from assms have n: "unat v < 64"
    by (simp add: word_less_nat_alt)
  then have "decodeMap (encode_byte v) = of_nat (unat v)"
    using decodeMap_from_nth [OF distinct_encodeStd, of "unat v" 0]
    by (simp add: decodeMap_def encode_byte_def length_encodeStd)
  then show eq: "decodeMap (encode_byte v) = ucast v"
    by simp
  from n have "unat (of_nat (unat v) :: 8 word) \<noteq> 255"
    by (simp add: unsigned_ucast_eq take_bit_nat_eq_self)
  then have "(of_nat (unat v) :: 8 word) \<noteq> 0xFF"
    by auto
  then show "decodeMap (encode_byte v) \<noteq> 0xFF"
    using \<open>decodeMap (encode_byte v) = of_nat (unat v)\<close> by simp
qed

lemma sextet_less: "(x :: 64 word) AND 0x3F < 64"
proof -
  have "x AND 0x3F \<le> 0x3F" by (rule word_and_le1)
  then show ?thesis by (simp add: word_le_nat_alt word_less_nat_alt)
qed

lemma encode_byte_alphabet: "v < 64 \<Longrightarrow> encode_byte v \<in> set encodeStd"
  by (simp add: encode_byte_def word_less_nat_alt length_encodeStd)

lemma and_3F: "(x :: 64 word) AND 0x3F = take_bit 6 x"
  by (simp add: take_bit_eq_mask mask_eq_exp_minus_1)

lemma bit_byte_high: "8 \<le> n \<Longrightarrow> \<not> bit (w :: byte) n"
  using bit_imp_le_length [of w n] by auto

lemma pack3_bits:
  fixes a b c :: byte
  shows "(ucast (drop_bit 16 (push_bit 16 (ucast a) OR push_bit 8 (ucast b) OR ucast c :: 64 word)) :: byte) = a"
    and "(ucast (drop_bit 8 (push_bit 16 (ucast a) OR push_bit 8 (ucast b) OR ucast c :: 64 word)) :: byte) = b"
    and "(ucast (push_bit 16 (ucast a) OR push_bit 8 (ucast b) OR ucast c :: 64 word) :: byte) = c"
  by (rule bit_word_eqI; simp add: bit_simps bit_byte_high)+

lemma repack4:
  fixes val :: "64 word"
  assumes "take_bit 24 val = val"
  shows "push_bit 18 (ucast (ucast (take_bit 6 (drop_bit 18 val)) :: byte)) OR
         push_bit 12 (ucast (ucast (take_bit 6 (drop_bit 12 val)) :: byte)) OR
         push_bit 6 (ucast (ucast (take_bit 6 (drop_bit 6 val)) :: byte)) OR
         ucast (ucast (take_bit 6 val) :: byte) = val"
proof (rule bit_word_eqI)
  fix n assume "n < LENGTH(64)"
  have hi: "\<not> bit val n" if "24 \<le> n"
  proof -
    have "bit (take_bit 24 val) n \<longleftrightarrow> n < 24 \<and> bit val n"
      by (simp add: bit_simps)
    with assms that show ?thesis by simp
  qed
  consider "n < 6" | "6 \<le> n" "n < 12" | "12 \<le> n" "n < 18" | "18 \<le> n" "n < 24" | "24 \<le> n"
    by linarith
  then show "bit (push_bit 18 (ucast (ucast (take_bit 6 (drop_bit 18 val)) :: byte)) OR
         push_bit 12 (ucast (ucast (take_bit 6 (drop_bit 12 val)) :: byte)) OR
         push_bit 6 (ucast (ucast (take_bit 6 (drop_bit 6 val)) :: byte)) OR
         (ucast (ucast (take_bit 6 val) :: byte) :: 64 word)) n = bit val n"
  proof cases
    case 1
    then show ?thesis by (simp add: bit_simps)
  next
    case 2
    then show ?thesis by (auto simp: bit_simps)
  next
    case 3
    then show ?thesis by (auto simp: bit_simps)
  next
    case 4
    then show ?thesis by (auto simp: bit_simps)
  next
    case 5
    with hi show ?thesis by (auto simp: bit_simps)
  qed
qed

lemma pack3_take_bit:
  fixes a b c :: byte
  shows "take_bit 24 (push_bit 16 (ucast a) OR push_bit 8 (ucast b) OR ucast c :: 64 word) =
         push_bit 16 (ucast a) OR push_bit 8 (ucast b) OR ucast c"
proof (rule bit_word_eqI)
  fix n assume "n < LENGTH(64)"
  show "bit (take_bit 24 (push_bit 16 (ucast a) OR push_bit 8 (ucast b) OR ucast c :: 64 word)) n =
        bit (push_bit 16 (ucast a) OR push_bit 8 (ucast b) OR ucast c :: 64 word) n"
    using bit_imp_le_length [of a "n - 16"] bit_imp_le_length [of b "n - 8"]
      bit_imp_le_length [of c n]
    by (auto simp: bit_simps)
qed

lemma pack2_low:
  fixes a b :: byte
  shows "take_bit 6 (push_bit 16 (ucast a) OR push_bit 8 (ucast b) :: 64 word) = 0"
  by (rule bit_word_eqI) (auto simp: bit_simps)

lemma pack1_low:
  fixes a :: byte
  shows "take_bit 6 (push_bit 16 (ucast a) :: 64 word) = 0"
    and "take_bit 6 (drop_bit 6 (push_bit 16 (ucast a) :: 64 word)) = 0"
  by (rule bit_word_eqI; auto simp: bit_simps)+

lemma quantum_bytes_4:
  fixes val :: "64 word"
  assumes "take_bit 24 val = val"
  shows "quantum_bytes [ucast (take_bit 6 (drop_bit 18 val)), ucast (take_bit 6 (drop_bit 12 val)),
                        ucast (take_bit 6 (drop_bit 6 val)), ucast (take_bit 6 val)] =
         [ucast (drop_bit 16 val), ucast (drop_bit 8 val), ucast val]"
  by (simp add: quantum_bytes_def Let_def repack4 [OF assms] del: drop_bit_or)

lemma quantum_bytes_3:
  fixes val :: "64 word"
  assumes "take_bit 24 val = val" and "take_bit 6 val = 0"
  shows "quantum_bytes [ucast (take_bit 6 (drop_bit 18 val)), ucast (take_bit 6 (drop_bit 12 val)),
                        ucast (take_bit 6 (drop_bit 6 val))] =
         [ucast (drop_bit 16 val), ucast (drop_bit 8 val)]"
  using repack4 [OF assms(1)] assms(2)
  by (simp add: quantum_bytes_def Let_def del: drop_bit_or)

lemma quantum_bytes_2:
  fixes val :: "64 word"
  assumes "take_bit 24 val = val" and "take_bit 6 val = 0" and "take_bit 6 (drop_bit 6 val) = 0"
  shows "quantum_bytes [ucast (take_bit 6 (drop_bit 18 val)), ucast (take_bit 6 (drop_bit 12 val))] =
         [ucast (drop_bit 16 val)]"
  using repack4 [OF assms(1)] assms(2,3)
  by (simp add: quantum_bytes_def Let_def del: drop_bit_or)

lemma quantum_loop_done: "4 \<le> j \<Longrightarrow> quantum_loop j si rest = Inr ([], si, rest)"
  by (cases rest) simp_all

lemma quantum_loop_valid:
  "decodeMap c \<noteq> 0xFF \<Longrightarrow> j < 4 \<Longrightarrow>
   quantum_loop j si (c # cs) =
     (case quantum_loop (j + 1) (si + 1) cs of
        Inl e \<Rightarrow> Inl e
      | Inr (dbuf, nsi, rest) \<Rightarrow> Inr (decodeMap c # dbuf, nsi, rest))"
  by (simp add: Let_def)

lemma decodeQuantum_4:
  assumes "decodeMap c1 \<noteq> 0xFF" "decodeMap c2 \<noteq> 0xFF" "decodeMap c3 \<noteq> 0xFF"
    "decodeMap c4 \<noteq> 0xFF"
  shows "decodeQuantum si (c1 # c2 # c3 # c4 # rest) =
     Inr (quantum_bytes [decodeMap c1, decodeMap c2, decodeMap c3, decodeMap c4], si + 4, rest)"
  using assms
  by (simp add: decodeQuantum_def quantum_loop_valid quantum_loop_done del: quantum_loop.simps)

lemma decodeQuantum_3:
  assumes "decodeMap c1 \<noteq> 0xFF" "decodeMap c2 \<noteq> 0xFF" "decodeMap c3 \<noteq> 0xFF"
  shows "decodeQuantum si [c1, c2, c3] =
     Inr (quantum_bytes [decodeMap c1, decodeMap c2, decodeMap c3], si + 3, [])"
  using assms
  by (simp add: decodeQuantum_def quantum_loop_valid del: quantum_loop.simps(2))

lemma decodeQuantum_2:
  assumes "decodeMap c1 \<noteq> 0xFF" "decodeMap c2 \<noteq> 0xFF"
  shows "decodeQuantum si [c1, c2] =
     Inr (quantum_bytes [decodeMap c1, decodeMap c2], si + 2, [])"
  using assms
  by (simp add: decodeQuantum_def quantum_loop_valid del: quantum_loop.simps(2))

lemma sextet_lt: "take_bit 6 (x :: 64 word) < 64"
  using sextet_less [of x] by (simp add: and_3F)

lemma decodeMap_sextet:
  "decodeMap (encode_byte (take_bit 6 x)) = ucast (take_bit 6 x)"
  "decodeMap (encode_byte (take_bit 6 x)) \<noteq> 0xFF"
  using decodeMap_encode_byte [OF sextet_lt [of x]] by blast+

lemma Decode_EncodeToString: "Decode si (EncodeToString xs) = Inr xs"
proof (induction xs arbitrary: si rule: EncodeToString.induct)
  case (1 a b c src)
  define val :: "64 word" where "val = push_bit 16 (ucast a) OR push_bit 8 (ucast b) OR ucast c"
  have tb: "take_bit 24 val = val"
    unfolding val_def by (rule pack3_take_bit)
  have bytes: "[ucast (drop_bit 16 val), ucast (drop_bit 8 val), ucast val] = [a, b, c]"
    unfolding val_def by (simp only: pack3_bits)
  have enc: "EncodeToString (a # b # c # src) =
      encode_byte (take_bit 6 (drop_bit 18 val)) # encode_byte (take_bit 6 (drop_bit 12 val)) #
      encode_byte (take_bit 6 (drop_bit 6 val)) # encode_byte (take_bit 6 val) #
      EncodeToString src"
    by (simp add: Let_def and_3F val_def del: drop_bit_or)
  have "decodeQuantum si (EncodeToString (a # b # c # src)) =
      Inr ([a, b, c], si + 4, EncodeToString src)"
    unfolding enc
    by (simp only: decodeQuantum_4 [OF decodeMap_sextet(2) decodeMap_sextet(2)
          decodeMap_sextet(2) decodeMap_sextet(2)] decodeMap_sextet(1) quantum_bytes_4 [OF tb] bytes)
  with "1.IH" [OF refl] enc show ?case
    by (simp add: Decode_Cons)
next
  case (2 a b)
  define val :: "64 word" where "val = push_bit 16 (ucast a) OR push_bit 8 (ucast b)"
  have val0: "val = push_bit 16 (ucast a) OR push_bit 8 (ucast b) OR ucast (0 :: byte)"
    by (simp add: val_def)
  have tb: "take_bit 24 val = val"
    unfolding val0 by (rule pack3_take_bit)
  have low: "take_bit 6 val = 0"
    unfolding val_def by (rule pack2_low)
  have bytes: "[ucast (drop_bit 16 val), ucast (drop_bit 8 val)] = [a, b]"
    unfolding val0 by (simp only: pack3_bits)
  have enc: "EncodeToString [a, b] =
      [encode_byte (take_bit 6 (drop_bit 18 val)), encode_byte (take_bit 6 (drop_bit 12 val)),
       encode_byte (take_bit 6 (drop_bit 6 val))]"
    by (simp add: Let_def and_3F val_def del: drop_bit_or)
  have "decodeQuantum si (EncodeToString [a, b]) = Inr ([a, b], si + 3, [])"
    unfolding enc
    by (simp only: decodeQuantum_3 [OF decodeMap_sextet(2) decodeMap_sextet(2)
          decodeMap_sextet(2)] decodeMap_sextet(1) quantum_bytes_3 [OF tb low] bytes)
  with enc show ?case
    by (simp add: Decode_Cons)
next
  case (3 a)
  define val :: "64 word" where "val = push_bit 16 (ucast a)"
  have val0: "val = push_bit 16 (ucast a) OR push_bit 8 (ucast (0 :: byte)) OR ucast (0 :: byte)"
    by (simp add: val_def)
  have tb: "take_bit 24 val = val"
    unfolding val0 by (rule pack3_take_bit)
  have low: "take_bit 6 val = 0" "take_bit 6 (drop_bit 6 val) = 0"
    unfolding val_def by (rule pack1_low)+
  have bytes: "[ucast (drop_bit 16 val)] = [a]"
    unfolding val0 by (simp only: pack3_bits)
  have enc: "EncodeToString [a] =
      [encode_byte (take_bit 6 (drop_bit 18 val)), encode_byte (take_bit 6 (drop_bit 12 val))]"
    by (simp add: Let_def and_3F val_def del: drop_bit_or)
  have "decodeQuantum si (EncodeToString [a]) = Inr ([a], si + 2, [])"
    unfolding enc
    by (simp only: decodeQuantum_2 [OF decodeMap_sextet(2) decodeMap_sextet(2)]
          decodeMap_sextet(1) quantum_bytes_2 [OF tb low] bytes)
  with enc show ?case
    by (simp add: Decode_Cons)
next
  case 4
  then show ?case by simp
qed

lemma DecodeString_EncodeToString: "DecodeString (EncodeToString xs) = Inr xs"
  by (simp add: DecodeString_def Decode_EncodeToString)

lemma EncodeToString_alphabet: "set (EncodeToString xs) \<subseteq> set encodeStd"
  by (induction xs rule: EncodeToString.induct)
     (simp_all add: Let_def encode_byte_alphabet sextet_less del: drop_bit_or)

section \<open>base64: what the decoder rejects\<close>

text \<open>
  \<open>DecodeString\<close> fails exactly on the texts that \<open>corrupt_base64\<close> describes; the
  encoding of a byte string is never one of them.
\<close>

lemma decodeMap_from_other: "c \<notin> set es \<Longrightarrow> decodeMap_from es i c = 0xFF"
  by (induction es arbitrary: i) auto

lemma decodeMap_valid_iff: "decodeMap c \<noteq> 0xFF \<longleftrightarrow> c \<in> set encodeStd"
proof
  assume "decodeMap c \<noteq> 0xFF"
  then show "c \<in> set encodeStd"
    using decodeMap_from_other [of c encodeStd 0] by (auto simp: decodeMap_def)
next
  assume "c \<in> set encodeStd"
  then obtain n where n: "n < length encodeStd" "c = encodeStd ! n"
    by (auto simp: in_set_conv_nth)
  then have "n < 64" by (simp add: length_encodeStd)
  then have "(of_nat n :: 64 word) < 64"
    by (simp add: word_less_nat_alt unat_of_nat)
  moreover have "unat (of_nat n :: 64 word) = n"
    using \<open>n < 64\<close> by (simp add: unat_of_nat)
  ultimately show "decodeMap c \<noteq> 0xFF"
    using decodeMap_encode_byte(2) [of "of_nat n"] n by (simp add: encode_byte_def)
qed

lemma newline_not_alphabet: "CHR 0x0A \<notin> set encodeStd" "CHR 0x0D \<notin> set encodeStd"
  by (simp_all add: encodeStd_def)

lemma quantum_loop_Inr:
  assumes "quantum_loop j si s = Inr (ds, nsi, rest)" and "j \<le> 4"
  shows "\<exists>pre. s = pre @ rest \<and>
           (\<forall>c \<in> set pre. c \<in> set encodeStd \<or> c = CHR 0x0A \<or> c = CHR 0x0D) \<and>
           length ds = length (filter (\<lambda>c. c \<in> set encodeStd) pre) \<and>
           (j + length ds = 4 \<or> (rest = [] \<and> j + length ds < 4 \<and> j + length ds \<noteq> 1))"
  using assms
proof (induction j si s arbitrary: ds nsi rest rule: quantum_loop.induct)
  case (1 j si)
  then show ?case
    by (auto split: if_splits)
next
  case (2 j si c src)
  show ?case
  proof (cases "j \<ge> 4")
    case True
    with "2.prems" have "ds = []" "rest = c # src" "j = 4"
      by auto
    then show ?thesis by simp
  next
    case j: False
    show ?thesis
    proof (cases "decodeMap c \<noteq> 0xFF")
      case True
      with j "2.prems" obtain dbuf where
        rec: "quantum_loop (j + 1) (si + 1) src = Inr (dbuf, nsi, rest)" and ds: "ds = decodeMap c # dbuf"
        by (auto simp: Let_def split: sum.splits)
      have "j + 1 \<le> 4" using j by simp
      from "2.IH"(1) [OF j refl True rec this] obtain pre where
        "src = pre @ rest"
        "\<forall>c \<in> set pre. c \<in> set encodeStd \<or> c = CHR 0x0A \<or> c = CHR 0x0D"
        "length dbuf = length (filter (\<lambda>c. c \<in> set encodeStd) pre)"
        "j + 1 + length dbuf = 4 \<or> (rest = [] \<and> j + 1 + length dbuf < 4 \<and> j + 1 + length dbuf \<noteq> 1)"
        by blast
      with True ds show ?thesis
        by (intro exI [of _ "c # pre"]) (auto simp: decodeMap_valid_iff)
    next
      case False
      with j "2.prems" have nl: "c = CHR 0x0A \<or> c = CHR 0x0D"
        and rec: "quantum_loop j (si + 1) src = Inr (ds, nsi, rest)"
        by (auto simp: Let_def split: if_splits)
      from False have inv: "decodeMap c = 0xFF" by simp
      from "2.IH"(2) [OF j refl _ nl rec "2.prems"(2)] inv obtain pre where
        "src = pre @ rest"
        "\<forall>c \<in> set pre. c \<in> set encodeStd \<or> c = CHR 0x0A \<or> c = CHR 0x0D"
        "length ds = length (filter (\<lambda>c. c \<in> set encodeStd) pre)"
        "j + length ds = 4 \<or> (rest = [] \<and> j + length ds < 4 \<and> j + length ds \<noteq> 1)"
        by blast
      with nl show ?thesis
        by (intro exI [of _ "c # pre"]) (auto simp: newline_not_alphabet)
    qed
  qed
qed

lemma quantum_loop_Inl:
  assumes "quantum_loop j si s = Inl e"
  shows "(\<exists>c \<in> set s. c \<notin> set encodeStd \<and> c \<noteq> CHR 0x0A \<and> c \<noteq> CHR 0x0D) \<or>
         j + length (filter (\<lambda>c. c \<in> set encodeStd) s) = 1"
  using assms
proof (induction j si s rule: quantum_loop.induct)
  case (1 j si)
  then show ?case
    by (auto split: if_splits)
next
  case (2 j si c src)
  from "2.prems" have j: "\<not> j \<ge> 4"
    by auto
  show ?case
  proof (cases "decodeMap c \<noteq> 0xFF")
    case True
    with j "2.prems" have "quantum_loop (j + 1) (si + 1) src = Inl e"
      by (auto simp: Let_def split: sum.splits)
    from "2.IH"(1) [OF j refl True this] True show ?thesis
      by (auto simp: decodeMap_valid_iff)
  next
    case False
    then have inv: "c \<notin> set encodeStd"
      by (simp add: decodeMap_valid_iff)
    show ?thesis
    proof (cases "c = CHR 0x0A \<or> c = CHR 0x0D")
      case True
      with j False "2.prems" have "quantum_loop j (si + 1) src = Inl e"
        by (auto simp: Let_def)
      from "2.IH"(2) [OF j refl _ True this] False inv show ?thesis
        by auto
    next
      case False
      with inv show ?thesis by auto
    qed
  qed
qed

lemma corrupt_base64_append:
  assumes "\<forall>c \<in> set pre. c \<in> set encodeStd \<or> c = CHR 0x0A \<or> c = CHR 0x0D"
    and "length (filter (\<lambda>c. c \<in> set encodeStd) pre) = 4"
  shows "corrupt_base64 (pre @ rest) \<longleftrightarrow> corrupt_base64 rest"
  using assms by (auto simp: corrupt_base64_def)

lemma Decode_fails_iff: "(\<exists>e. Decode si s = Inl e) \<longleftrightarrow> corrupt_base64 s"
proof (induction si s rule: Decode.induct)
  case (1 si src)
  show ?case
  proof (cases "src = []")
    case True
    then show ?thesis by (simp add: corrupt_base64_def)
  next
    case ne: False
    then obtain c cs where src: "src = c # cs" by (cases src) auto
    show ?thesis
    proof (cases "quantum_loop 0 si src")
      case (Inl e)
      then have "Decode si src = Inl e"
        by (simp add: src Decode_Cons decodeQuantum_def)
      moreover from quantum_loop_Inl [OF Inl] have "corrupt_base64 src"
        by (auto simp: corrupt_base64_def)
      ultimately show ?thesis by auto
    next
      case (Inr r)
      obtain ds nsi rest where r: "r = (ds, nsi, rest)" by (cases r) auto
      have dq: "decodeQuantum si src = Inr (quantum_bytes ds, nsi, rest)"
        using Inr r by (simp add: decodeQuantum_def)
      from quantum_loop_Inr [OF Inr [unfolded r]] obtain pre where
        pre: "src = pre @ rest"
        "\<forall>c \<in> set pre. c \<in> set encodeStd \<or> c = CHR 0x0A \<or> c = CHR 0x0D"
        "length ds = length (filter (\<lambda>c. c \<in> set encodeStd) pre)"
        and fin: "0 + length ds = 4 \<or> (rest = [] \<and> 0 + length ds < 4 \<and> 0 + length ds \<noteq> 1)"
        by auto
      have dec: "Decode si src =
          (case Decode nsi rest of Inl e \<Rightarrow> Inl e | Inr bs2 \<Rightarrow> Inr (quantum_bytes ds @ bs2))"
        using dq by (simp add: src [symmetric] Decode_Cons [of si c cs, folded src])
      from fin show ?thesis
      proof
        assume full: "0 + length ds = 4"
        then have "corrupt_base64 src \<longleftrightarrow> corrupt_base64 rest"
          using corrupt_base64_append [OF pre(2), of rest] pre(1,3) by simp
        moreover have "(\<exists>e. Decode si src = Inl e) \<longleftrightarrow> (\<exists>e. Decode nsi rest = Inl e)"
          unfolding dec by (cases "Decode nsi rest") auto
        ultimately show ?thesis
          using "1.IH" [OF ne dq refl refl] by simp
      next
        assume short: "rest = [] \<and> 0 + length ds < 4 \<and> 0 + length ds \<noteq> 1"
        then have "Decode si src = Inr (quantum_bytes ds)"
          unfolding dec by simp
        moreover have "\<not> corrupt_base64 src"
          using short pre by (auto simp: corrupt_base64_def)
        ultimately show ?thesis by simp
      qed
    qed
  qed
qed

lemma DecodeString_fails_iff: "(\<exists>e. DecodeString v = Inl e) \<longleftrightarrow> corrupt_base64 v"
  by (simp add: DecodeString_def Decode_fails_iff)

lemma DecodeString_corrupt:
  "corrupt_base64 v \<Longrightarrow> \<exists>k. DecodeString v = Inl (CorruptInputError k)"
  using DecodeString_fails_iff [of v] DecodeString_error [of v] by blast

lemma DecodeString_not_corrupt:
  "\<not> corrupt_base64 v \<Longrightarrow> \<exists>bs. DecodeString v = Inr bs"
  using DecodeString_fails_iff [of v] by (cases "DecodeString v") auto

lemma raw_std_base64_not_corrupt: "raw_std_base64 v \<Longrightarrow> \<not> corrupt_base64 v"
  using DecodeString_fails_iff [of v] DecodeString_EncodeToString
  by (auto simp: raw_std_base64_def)

lemma raw_std_base64_alphabet: "raw_std_base64 v \<Longrightarrow> set v \<subseteq> set encodeStd"
  using EncodeToString_alphabet by (auto simp: raw_std_base64_def)

lemma raw_std_base64_canonical:
  "raw_std_base64 v \<Longrightarrow> DecodeString v = Inr bs \<Longrightarrow> EncodeToString bs = v"
  using DecodeString_EncodeToString by (auto simp: raw_std_base64_def)

section \<open>The encoder and the mode field\<close>

lemma encodeHash_Mode_update [simp]:
  "encodeHash mode (p\<lparr> Mode := x \<rparr>) salt hash = encodeHash mode p salt hash"
  by (simp add: encodeHash_def)

lemma upt_3: "[0 ..< 3] = [0, 1, 2]"
  by (simp add: upt_rec)

section \<open>Decimal numbers: scanning what was formatted\<close>

lemma dec_value_snoc: "dec_value (xs @ [c]) = dec_value xs * 10 + digit_val c"
  by (simp add: dec_value_def)

lemma fmt_u_digits: "set (fmt_u n) \<subseteq> set decimalDigits"
proof (induction n rule: fmt_u.induct)
  case (1 u)
  show ?case
  proof (cases "10 \<le> u")
    case True
    then have "u - u div 10 * 10 < 10" by simp
    with True "1.IH" show ?thesis
      by (subst fmt_u.simps) (simp add: digit_char_digit)
  next
    case False
    then show ?thesis
      by (subst fmt_u.simps) (simp add: digit_char_digit)
  qed
qed

lemma fmt_u_nonempty: "fmt_u n \<noteq> []"
  by (subst fmt_u.simps) simp

lemma dec_value_fmt_u: "dec_value (fmt_u n) = n"
proof (induction n rule: fmt_u.induct)
  case (1 u)
  show ?case
  proof (cases "10 \<le> u")
    case True
    then have "u - u div 10 * 10 < 10" by simp
    with True "1.IH" show ?thesis
      by (subst fmt_u.simps) (simp add: dec_value_snoc digit_val_digit_char)
  next
    case False
    then show ?thesis
      by (subst fmt_u.simps) (simp add: dec_value_def digit_val_digit_char)
  qed
qed

lemma scanNumber_fmt_u:
  assumes "rest = [] \<or> hd rest \<notin> set decimalDigits"
  shows "scanNumber (fmt_u n @ rest) = Some (fmt_u n, rest)"
proof -
  have all: "\<forall>c \<in> set (fmt_u n). c \<in> set decimalDigits"
    using fmt_u_digits by blast
  have stop: "takeWhile (\<lambda>c. c \<in> set decimalDigits) rest = []"
    "dropWhile (\<lambda>c. c \<in> set decimalDigits) rest = rest"
    using assms by (cases rest; simp)+
  from all stop show ?thesis
    by (simp add: scanNumber_def Let_def takeWhile_append2 dropWhile_append2 fmt_u_nonempty)
qed

lemma SkipSpace_fmt_u: "SkipSpace (fmt_u n @ rest) = Some (fmt_u n @ rest)"
proof -
  obtain c cs where eq: "fmt_u n = c # cs"
    using fmt_u_nonempty [of n] by (cases "fmt_u n") auto
  then have "c \<in> set decimalDigits"
    using fmt_u_digits [of n] by auto
  with eq show ?thesis
    using digit_not_space [of c] by (simp add: SkipSpace_nonspace)
qed

lemma scanUint_fmt_u:
  assumes "rest = [] \<or> hd rest \<notin> set decimalDigits" and "n < 2 ^ bitSize" and "bitSize \<le> 64"
  shows "scanUint bitSize (fmt_u n @ rest) = Some (n, rest)"
proof -
  from assms(2,3) have "n < 2 ^ 64"
    by (meson less_le_trans one_le_numeral power_increasing)
  with assms show ?thesis
    by (simp add: scanUint_def SkipSpace_fmt_u scanNumber_fmt_u dec_value_fmt_u Let_def)
qed

lemma fmt_d_uint: "fmt_d (uint w) = fmt_u (unat w)"
  by (simp add: fmt_d_def)

lemma scanOne_Uint32_fmt:
  assumes "rest = [] \<or> hd rest \<notin> set decimalDigits"
  shows "scanOne Uint32Ptr (fmt_u (unat (w :: 32 word)) @ rest) = Some (Uint32Val w, rest)"
proof -
  have "unat w < 2 ^ 32" using unsigned_less [of w] by simp
  with scanUint_fmt_u [OF assms, of "unat w" 32] show ?thesis
    by (simp add: scanOne_def)
qed

lemma scanOne_Uint8_fmt:
  assumes "rest = [] \<or> hd rest \<notin> set decimalDigits"
  shows "scanOne Uint8Ptr (fmt_u (unat (w :: 8 word)) @ rest) = Some (Uint8Val w, rest)"
proof -
  have "unat w < 2 ^ 8" using unsigned_less [of w] by simp
  with scanUint_fmt_u [OF assms, of "unat w" 8] show ?thesis
    by (simp add: scanOne_def)
qed

lemma Sscanf_params_fmt:
  "Sscanf (''m='' @ fmt_u (unat (m :: 32 word)) @ '',t='' @ fmt_u (unat (t :: 32 word)) @
           '',p='' @ fmt_u (unat (l :: 8 word)))
     ''m=%d,t=%d,p=%d'' [Uint32Ptr, Uint32Ptr, Uint8Ptr] =
   Some [Uint32Val m, Uint32Val t, Uint8Val l]"
proof -
  have c: "CHR '','' \<notin> set decimalDigits"
    by (simp add: decimalDigits_def)
  have 3: "scanOne Uint8Ptr (fmt_u (unat l)) = Some (Uint8Val l, [])"
    using scanOne_Uint8_fmt [of "[]" l] by simp
  have s3: "SkipSpace (fmt_u (unat l)) = Some (fmt_u (unat l))"
    using SkipSpace_fmt_u [of "unat l" "[]"] by simp
  show ?thesis
    by (simp add: Sscanf_def SkipSpace_fmt_u scanOne_Uint32_fmt c 3 s3)
qed

section \<open>decodeHash on the output of the encoder\<close>

lemma dollar_not_digit: "CHR ''$'' \<notin> set (fmt_u n)"
  using fmt_u_digits [of n] by (auto simp: decimalDigits_def)

lemma dollar_not_base64: "CHR ''$'' \<notin> set (EncodeToString xs)"
  using EncodeToString_alphabet [of xs] by (auto simp: encodeStd_def)

lemma fmt_d_Version: "fmt_d argon2_Version = ''19''"
  by (simp add: fmt_d_def argon2_Version_def fmt_u.simps digit_char_table)

lemma Split_encodeHash:
  assumes "mode = ModeArgon2id \<or> mode = ModeArgon2i"
  shows "Split (encodeHash mode p salt hash) CHR ''$'' =
     [[], mode, ''v=19'',
      ''m='' @ fmt_u (unat (Memory p)) @ '',t='' @ fmt_u (unat (Iterations p)) @
        '',p='' @ fmt_u (unat (Parallelism p)),
      EncodeToString salt, EncodeToString hash]"
proof -
  let ?ps = "''m='' @ fmt_u (unat (Memory p)) @ '',t='' @ fmt_u (unat (Iterations p)) @
        '',p='' @ fmt_u (unat (Parallelism p))"
  have eq: "encodeHash mode p salt hash =
      [] @ CHR ''$'' # (mode @ CHR ''$'' # (''v=19'' @ CHR ''$'' # (?ps @ CHR ''$'' #
        (EncodeToString salt @ CHR ''$'' # EncodeToString hash))))"
    by (simp add: encodeHash_def Let_def fmt_d_Version fmt_d_uint)
  have 0: "CHR ''$'' \<notin> set ([] :: string)" by simp
  have 1: "CHR ''$'' \<notin> set mode"
    using assms by (auto simp: ModeArgon2id_def ModeArgon2i_def)
  have 2: "CHR ''$'' \<notin> set ''v=19''" by simp
  have 3: "CHR ''$'' \<notin> set ?ps" by (simp add: dollar_not_digit)
  note 4 = dollar_not_base64 [of salt]
  note 5 = dollar_not_base64 [of hash]
  show ?thesis
    unfolding eq
    by (simp only: Split_append [OF 0] Split_append [OF 1] Split_append [OF 2]
        Split_append [OF 3] Split_append [OF 4] Split_no_sep [OF 5])
qed

lemma Sscanf_version_19: "Sscanf ''v=19'' ''v=%d'' [IntPtr] = Some [IntVal 19]"
  by (simp add: scan_eval)

lemma decodeHash_encodeHash_roundtrip:
  assumes "Mode p = ModeArgon2id \<or> Mode p = ModeArgon2i"
    and "1 \<le> Memory p" and "1 \<le> Iterations p" and "1 \<le> Parallelism p"
  shows "decodeHash (encodeHash (Mode p) p salt key) =
     Inr (p\<lparr> SaltLength := of_nat (length salt), KeyLength := of_nat (length key) \<rparr>, salt, key)"
proof -
  from assms(2-4) have ok: "\<not> (Memory p < 1 \<or> Iterations p < 1 \<or> Parallelism p < 1)"
    by (simp only: de_Morgan_disj not_less)
  note eq = decodeHash_params_parsed [OF Split_encodeHash [OF assms(1)] Sscanf_version_19
      assms(1) Sscanf_params_fmt]
  show ?thesis
    unfolding eq using ok
    by (simp add: DecodeString_EncodeToString)
qed

lemma encodeHash_sample:
  "encodeHash ''argon2i''
       \<lparr> Memory = 65536, Iterations = 3, Parallelism = 4, SaltLength = 16, KeyLength = 32,
         Mode = ''argon2i'' \<rparr> [115, 97, 108, 116] [107, 101, 121] =
     ''$argon2i$v=19$m=65536,t=3,p=4$c2FsdA$a2V5''"
proof -
  have u: "uint (65536 :: 32 word) = 65536" "uint (3 :: 32 word) = 3" "uint (4 :: 8 word) = 4"
    by simp_all
  have f: "fmt_d 65536 = ''65536''" "fmt_d 3 = ''3''" "fmt_d 4 = ''4''"
    by (simp_all add: fmt_d_def fmt_u.simps digit_char_table)
  show ?thesis
    by (simp add: encodeHash_def fmt_d_Version u f base64_eval)
qed

section \<open>ConstantTimeCompare decides equality\<close>




section \<open>What HashWithParams returns and what Verify does with a decoded record\<close>




section \<open>DefaultParams: the default parameters\<close>

lemma DefaultParams_fields:
  "Memory (DefaultParams n) = 65536 \<and> Iterations (DefaultParams n) = 1 \<and>
   SaltLength (DefaultParams n) = 16 \<and> KeyLength (DefaultParams n) = 32 \<and>
   Mode (DefaultParams n) = ModeArgon2id \<and> Parallelism (DefaultParams n) \<le> 4"
  by (auto simp: DefaultParams_def Let_def DefaultMemory_def DefaultIterations_def
      DefaultSaltLength_def DefaultKeyLength_def DefaultParallelism_def)

text \<open>
  Up to 255 cores the parallelism is the smaller of the core count and 4, hence between
  1 and 4.
\<close>

lemma DefaultParams_small:
  "1 \<le> n \<Longrightarrow> n \<le> 255 \<Longrightarrow> Parallelism (DefaultParams n) = word_of_int (min n 4)"
  by (auto simp: DefaultParams_def Let_def DefaultParallelism_def min_def word_less_def
      word_le_def uint_word_of_int take_bit_int_eq_self)

text \<open>
  The earlier revision (src/unnamed/part_000) has the floor: with 256 cores the
  conversion to \<open>uint8\<close> gives 0, which it raises to 1.
\<close>

lemma DefaultParams_part_000_parallelism_256:
  "DefaultParams_part_000_parallelism 256 = 1"
  by (simp add: DefaultParams_part_000_parallelism_def Let_def)

text \<open>
  Claim C5: \<open>DefaultParams()\<close> returns memory 65536, iterations 1, salt length 16, key
  length 32, mode argon2id and a parallelism between 1 and 4 (the smaller of the core
  count and 4, at least 1) for every core count from 1 on. The function of argon.go
  does not: it converts the core count to \<open>uint8\<close> and only caps the result, so with
  256 cores the parallelism is 0, neither at least 1 nor the smaller of 256 and 4.
\<close>

theorem DefaultParams_256_cores:
  "Parallelism (DefaultParams 256) = 0 \<and>
   \<not> (1 \<le> Parallelism (DefaultParams 256)) \<and>
   Parallelism (DefaultParams 256) \<noteq> word_of_int (min 256 4)"
proof -
  have "Parallelism (DefaultParams 256) = 0"
    by (simp add: DefaultParams_def Let_def DefaultParallelism_def)
  then show ?thesis
    by simp
qed

section \<open>decodeHash: the number of segments\<close>

lemma length_Split: "length (Split s sep) = Suc (count_list s sep)"
  by (induction s) (auto split: list.splits)

text \<open>
  Claim C8: an input that does not split into exactly six segments at \<open>$\<close> is
  rejected with \<open>ErrInvalidHash\<close>; the empty input, which splits into one segment, is
  rejected by the same check.
\<close>

theorem decodeHash_segment_count:
  "(length (Split s CHR ''$'') \<noteq> 6 \<longrightarrow> decodeHash s = Inl ErrInvalidHash) \<and>
   length (Split [] CHR ''$'') = 1 \<and> decodeHash [] = Inl ErrInvalidHash"
  by (simp add: decodeHash_def Let_def)

theorem decodeHash_segment_count_witness:
  "length (Split ''$argon2id$v=19$m=1,t=1,p=1$c2FsdA$a2V5$'' CHR ''$'') \<noteq> 6 \<and>
   decodeHash ''$argon2id$v=19$m=1,t=1,p=1$c2FsdA$a2V5$'' = Inl ErrInvalidHash \<and>
   length (Split ''invalid_hash_string'' CHR ''$'') \<noteq> 6 \<and>
   decodeHash ''invalid_hash_string'' = Inl ErrInvalidHash"
  using decodeHash_segment_count [of "''$argon2id$v=19$m=1,t=1,p=1$c2FsdA$a2V5$''"]
    decodeHash_segment_count [of "''invalid_hash_string''"]
  by simp

section \<open>decodeHash: the mode segment\<close>

text \<open>
  Claim C3 says that a mode segment other than \<open>argon2id\<close> and \<open>argon2i\<close> gives
  \<open>ErrUnsupportedMode\<close> regardless of the other segments, the mode being checked before
  the version. \<open>decodeHash\<close> checks the version segment first: with mode \<open>argon2d\<close>
  and version 18 the error is \<open>ErrIncompatibleVersion\<close>.
\<close>

theorem decodeHash_mode_checked_first_counterexample:
  "length (Split ''$argon2d$v=18$m=65536,t=1,p=4$c2FsdA$a2V5'' CHR ''$'') = 6 \<and>
   Split ''$argon2d$v=18$m=65536,t=1,p=4$c2FsdA$a2V5'' CHR ''$'' ! 1 = ''argon2d'' \<and>
   ''argon2d'' \<noteq> ModeArgon2id \<and> ''argon2d'' \<noteq> ModeArgon2i \<and>
   decodeHash ''$argon2d$v=18$m=65536,t=1,p=4$c2FsdA$a2V5'' = Inl ErrIncompatibleVersion \<and>
   decodeHash ''$argon2d$v=18$m=65536,t=1,p=4$c2FsdA$a2V5'' \<noteq> Inl ErrUnsupportedMode"
  by (simp add: decode_eval)

text \<open>
  Claim C3, as amended: for an input of six segments whose version segment scans as
  \<open>v=19\<close>, a mode segment other than \<open>argon2id\<close> and \<open>argon2i\<close> (\<open>argon2d\<close> and
  the empty string included) makes \<open>decodeHash\<close> fail with \<open>ErrUnsupportedMode\<close>,
  whatever segments 0, 3, 4 and 5 hold. The version segment is checked before the mode.
\<close>

theorem decodeHash_unsupported_mode:
  assumes "Split s CHR ''$'' = [v0, v1, v2, v3, v4, v5]"
    and "Sscanf v2 ''v=%d'' [IntPtr] = Some [IntVal 19]"
    and "v1 \<noteq> ModeArgon2id" and "v1 \<noteq> ModeArgon2i"
  shows "decodeHash s = Inl ErrUnsupportedMode"
  using assms by (rule decodeHash_mode_other)

theorem decodeHash_unsupported_mode_witness:
  "Split ''$argon2d$v=19$garbage$!$!'' CHR ''$'' = ['''', ''argon2d'', ''v=19'', ''garbage'', ''!'', ''!''] \<and>
   Sscanf ''v=19'' ''v=%d'' [IntPtr] = Some [IntVal 19] \<and>
   ''argon2d'' \<noteq> ModeArgon2id \<and> ''argon2d'' \<noteq> ModeArgon2i \<and>
   decodeHash ''$argon2d$v=19$garbage$!$!'' = Inl ErrUnsupportedMode"
  using decodeHash_unsupported_mode [of "''$argon2d$v=19$garbage$!$!''"
      "''''" "''argon2d''" "''v=19''" "''garbage''" "''!''" "''!''"]
  by (simp add: scan_eval ModeArgon2id_def ModeArgon2i_def)

section \<open>decodeHash: the validation of the parameters\<close>

text \<open>
  Claim C4 says that every input of six segments whose parameter segment scans with a
  value below 1 fails with \<open>ErrInvalidHash\<close>. The version and the mode are checked
  before the parameters: with version 18 and \<open>m=0\<close> the error is
  \<open>ErrIncompatibleVersion\<close>.
\<close>

theorem decodeHash_zero_params_counterexample:
  "length (Split ''$argon2id$v=18$m=0,t=1,p=1$c2FsdA$a2V5'' CHR ''$'') = 6 \<and>
   Sscanf (Split ''$argon2id$v=18$m=0,t=1,p=1$c2FsdA$a2V5'' CHR ''$'' ! 3) ''m=%d,t=%d,p=%d''
     [Uint32Ptr, Uint32Ptr, Uint8Ptr] = Some [Uint32Val 0, Uint32Val 1, Uint8Val 1] \<and>
   decodeHash ''$argon2id$v=18$m=0,t=1,p=1$c2FsdA$a2V5'' = Inl ErrIncompatibleVersion \<and>
   decodeHash ''$argon2id$v=18$m=0,t=1,p=1$c2FsdA$a2V5'' \<noteq> Inl ErrInvalidHash"
  by (simp add: decode_eval)

text \<open>
  Claim C4, as amended: for an input of six segments whose version segment scans as
  \<open>v=19\<close>, whose mode is \<open>argon2id\<close> or \<open>argon2i\<close> and whose parameter segment scans
  as \<open>m=..,t=..,p=..\<close>, a memory, iteration or parallelism value below 1 makes
  \<open>decodeHash\<close> fail with \<open>ErrInvalidHash\<close>; and every record that \<open>decodeHash\<close>
  returns has all three values at least 1.
\<close>

theorem decodeHash_validates_params:
  "(Split s CHR ''$'' = [v0, v1, v2, v3, v4, v5] \<and>
    Sscanf v2 ''v=%d'' [IntPtr] = Some [IntVal 19] \<and>
    (v1 = ModeArgon2id \<or> v1 = ModeArgon2i) \<and>
    Sscanf v3 ''m=%d,t=%d,p=%d'' [Uint32Ptr, Uint32Ptr, Uint8Ptr] =
      Some [Uint32Val m, Uint32Val t, Uint8Val l] \<and>
    (m < 1 \<or> t < 1 \<or> l < 1)
    \<longrightarrow> decodeHash s = Inl ErrInvalidHash) \<and>
   (decodeHash s = Inr (q, salt, hash)
    \<longrightarrow> 1 \<le> Memory q \<and> 1 \<le> Iterations q \<and> 1 \<le> Parallelism q)"
proof (intro conjI impI)
  assume a: "Split s CHR ''$'' = [v0, v1, v2, v3, v4, v5] \<and>
    Sscanf v2 ''v=%d'' [IntPtr] = Some [IntVal 19] \<and>
    (v1 = ModeArgon2id \<or> v1 = ModeArgon2i) \<and>
    Sscanf v3 ''m=%d,t=%d,p=%d'' [Uint32Ptr, Uint32Ptr, Uint8Ptr] =
      Some [Uint32Val m, Uint32Val t, Uint8Val l] \<and>
    (m < 1 \<or> t < 1 \<or> l < 1)"
  then have sp: "Split s CHR ''$'' = [v0, v1, v2, v3, v4, v5]"
    and v: "Sscanf v2 ''v=%d'' [IntPtr] = Some [IntVal 19]"
    and md: "v1 = ModeArgon2id \<or> v1 = ModeArgon2i"
    and ps: "Sscanf v3 ''m=%d,t=%d,p=%d'' [Uint32Ptr, Uint32Ptr, Uint8Ptr] =
      Some [Uint32Val m, Uint32Val t, Uint8Val l]"
    and z: "m < 1 \<or> t < 1 \<or> l < 1"
    by blast+
  from decodeHash_params_parsed [OF sp v md ps] z
  show "decodeHash s = Inl ErrInvalidHash"
    by simp
next
  assume "decodeHash s = Inr (q, salt, hash)"
  from decodeHash_success [OF this]
  show "1 \<le> Memory q" "1 \<le> Iterations q" "1 \<le> Parallelism q"
    by blast+
qed

theorem decodeHash_validates_params_witness:
  "Split ''$argon2id$v=19$m=65536,t=0,p=4$c2FsdA$a2V5'' CHR ''$'' =
     ['''', ''argon2id'', ''v=19'', ''m=65536,t=0,p=4'', ''c2FsdA'', ''a2V5''] \<and>
   Sscanf ''v=19'' ''v=%d'' [IntPtr] = Some [IntVal 19] \<and>
   Sscanf ''m=65536,t=0,p=4'' ''m=%d,t=%d,p=%d'' [Uint32Ptr, Uint32Ptr, Uint8Ptr] =
     Some [Uint32Val 65536, Uint32Val 0, Uint8Val 4] \<and>
   decodeHash ''$argon2id$v=19$m=65536,t=0,p=4$c2FsdA$a2V5'' = Inl ErrInvalidHash \<and>
   decodeHash ''$argon2id$v=19$m=2,t=3,p=4$c2FsdA$a2V5'' =
     Inr (\<lparr> Memory = 2, Iterations = 3, Parallelism = 4, SaltLength = 4, KeyLength = 3,
            Mode = ''argon2id'' \<rparr>, [115, 97, 108, 116], [107, 101, 121]) \<and>
   (1::32 word) \<le> 2 \<and> (1::32 word) \<le> 3 \<and> (1::8 word) \<le> 4"
  using decodeHash_validates_params [of "''$argon2id$v=19$m=65536,t=0,p=4$c2FsdA$a2V5''"
      "''''" "''argon2id''" "''v=19''" "''m=65536,t=0,p=4''" "''c2FsdA''" "''a2V5''" 65536 0 4]
    decodeHash_validates_params [of "''$argon2id$v=19$m=2,t=3,p=4$c2FsdA$a2V5''"
      _ _ _ _ _ _ _ _ _
      "\<lparr> Memory = 2, Iterations = 3, Parallelism = 4, SaltLength = 4, KeyLength = 3,
            Mode = ''argon2id'' \<rparr>" "[115, 97, 108, 116]" "[107, 101, 121]"]
  by (simp add: decode_eval)

section \<open>The empty mode\<close>

text \<open>
  Claim C7 says that a six-segment string whose mode segment is empty and whose other
  segments are valid decodes, with the mode defaulting to argon2id. \<open>decodeHash\<close>
  rejects it with \<open>ErrUnsupportedMode\<close>; the same string with the tag \<open>argon2id\<close>
  decodes.
\<close>

theorem decodeHash_empty_mode_counterexample:
  "length (Split ''$$v=19$m=1,t=1,p=1$c2FsdA$a2V5'' CHR ''$'') = 6 \<and>
   Split ''$$v=19$m=1,t=1,p=1$c2FsdA$a2V5'' CHR ''$'' ! 1 = [] \<and>
   decodeHash ''$$v=19$m=1,t=1,p=1$c2FsdA$a2V5'' = Inl ErrUnsupportedMode \<and>
   decodeHash ''$argon2id$v=19$m=1,t=1,p=1$c2FsdA$a2V5'' =
     Inr (\<lparr> Memory = 1, Iterations = 1, Parallelism = 1, SaltLength = 4, KeyLength = 3,
            Mode = ''argon2id'' \<rparr>, [115, 97, 108, 116], [107, 101, 121])"
  by (simp add: decode_eval)

text \<open>
  Claim C7, as amended: an empty mode in a configured \<open>Params\<close> record is treated as
  argon2id by \<open>HashWithParams\<close>: the call does what the call with the mode set to
  \<open>argon2id\<close> does, whatever that is (an error of the random source, a panic of
  \<open>argon2.IDKey\<close>, or a string). When the random source delivers the salt and
  iterations, parallelism and key length are at least 1, so that \<open>argon2.IDKey\<close>
  returns, the result is the encoding with the tag \<open>argon2id\<close> of the key derived with
  \<open>argon2.IDKey\<close>. On decode an empty mode segment is rejected: for a six-segment
  string whose version segment scans as \<open>v=19\<close> and whose mode segment is empty,
  \<open>decodeHash\<close> fails with \<open>ErrUnsupportedMode\<close> and \<open>Verify\<close> returns false with that
  error. Every record that \<open>decodeHash\<close> returns has mode \<open>argon2id\<close> or \<open>argon2i\<close>, so
  the default for an empty mode in \<open>Verify\<close> is never used.
\<close>

theorem empty_mode_handling:
  "(Mode p = [] \<longrightarrow>
      HashWithParams argon2_Key argon2_IDKey rnd password p =
        HashWithParams argon2_Key argon2_IDKey rnd password (p\<lparr> Mode := ModeArgon2id \<rparr>)) \<and>
   (Mode p = [] \<and> 1 \<le> Iterations p \<and> 1 \<le> Parallelism p \<and> 1 \<le> KeyLength p \<longrightarrow>
      HashWithParams argon2_Key argon2_IDKey (Some f) password p =
        Return (Inr (encodeHash ModeArgon2id p (map f [0 ..< unat (SaltLength p)])
               (argon2_IDKey (bytes_of password) (map f [0 ..< unat (SaltLength p)])
                  (Iterations p) (Memory p) (Parallelism p) (KeyLength p))))) \<and>
   (Split s CHR ''$'' = [v0, [], v2, v3, v4, v5] \<and>
    Sscanf v2 ''v=%d'' [IntPtr] = Some [IntVal 19] \<longrightarrow>
      decodeHash s = Inl ErrUnsupportedMode \<and>
      Verify argon2_Key argon2_IDKey password s = Return (False, Some ErrUnsupportedMode)) \<and>
   (decodeHash s = Inr (q, salt, hash) \<longrightarrow> Mode q = ModeArgon2id \<or> Mode q = ModeArgon2i)"
proof (intro conjI impI)
  assume "Mode p = []"
  then show "HashWithParams argon2_Key argon2_IDKey rnd password p =
        HashWithParams argon2_Key argon2_IDKey rnd password (p\<lparr> Mode := ModeArgon2id \<rparr>)"
    by (cases "rand_Read rnd (unat (SaltLength p))")
       (simp_all add: HashWithParams_def Let_def ModeArgon2id_def ModeArgon2i_def
          cong: outcome.case_cong)
next
  assume a: "Mode p = [] \<and> 1 \<le> Iterations p \<and> 1 \<le> Parallelism p \<and> 1 \<le> KeyLength p"
  then have "\<not> (Iterations p < 1 \<or> Parallelism p < 1 \<or> KeyLength p < 1)"
    by (simp only: de_Morgan_disj not_less)
  with a show "HashWithParams argon2_Key argon2_IDKey (Some f) password p =
        Return (Inr (encodeHash ModeArgon2id p (map f [0 ..< unat (SaltLength p)])
               (argon2_IDKey (bytes_of password) (map f [0 ..< unat (SaltLength p)])
                  (Iterations p) (Memory p) (Parallelism p) (KeyLength p))))"
    by (simp add: HashWithParams_def rand_Read_def argon2_call_def Let_def ModeArgon2id_def
        ModeArgon2i_def)
next
  assume a: "Split s CHR ''$'' = [v0, [], v2, v3, v4, v5] \<and>
    Sscanf v2 ''v=%d'' [IntPtr] = Some [IntVal 19]"
  then have "decodeHash s = Inl ErrUnsupportedMode"
    by (intro decodeHash_mode_other [of s v0 "[]" v2 v3 v4 v5])
       (simp_all add: ModeArgon2id_def ModeArgon2i_def)
  then show "decodeHash s = Inl ErrUnsupportedMode"
    and "Verify argon2_Key argon2_IDKey password s = Return (False, Some ErrUnsupportedMode)"
    by (simp_all add: Verify_decode_error)
next
  assume "decodeHash s = Inr (q, salt, hash)"
  from decodeHash_success [OF this]
  show "Mode q = ModeArgon2id \<or> Mode q = ModeArgon2i"
    by blast
qed

theorem empty_mode_handling_witness:
  "HashWithParams sample_kdf sample_kdf sample_rand ''password''
      \<lparr> Memory = 1, Iterations = 1, Parallelism = 1, SaltLength = 3, KeyLength = 3, Mode = [] \<rparr> =
     HashWithParams sample_kdf sample_kdf sample_rand ''password''
      \<lparr> Memory = 1, Iterations = 1, Parallelism = 1, SaltLength = 3, KeyLength = 3,
        Mode = ModeArgon2id \<rparr> \<and>
   HashWithParams sample_kdf sample_kdf sample_rand ''password''
      \<lparr> Memory = 1, Iterations = 1, Parallelism = 1, SaltLength = 3, KeyLength = 3, Mode = [] \<rparr> =
     Return (Inr ''$argon2id$v=19$m=1,t=1,p=1$AAEC$cGFz'') \<and>
   Split ''$$v=19$m=1,t=1,p=1$c2FsdA$a2V5'' CHR ''$'' =
     ['''', [], ''v=19'', ''m=1,t=1,p=1'', ''c2FsdA'', ''a2V5''] \<and>
   Sscanf ''v=19'' ''v=%d'' [IntPtr] = Some [IntVal 19] \<and>
   decodeHash ''$$v=19$m=1,t=1,p=1$c2FsdA$a2V5'' = Inl ErrUnsupportedMode \<and>
   Verify sample_kdf sample_kdf ''password'' ''$$v=19$m=1,t=1,p=1$c2FsdA$a2V5'' =
     Return (False, Some ErrUnsupportedMode) \<and>
   decodeHash ''$argon2i$v=19$m=1,t=1,p=1$c2FsdA$a2V5'' =
     Inr (\<lparr> Memory = 1, Iterations = 1, Parallelism = 1, SaltLength = 4, KeyLength = 3,
            Mode = ''argon2i'' \<rparr>, [115, 97, 108, 116], [107, 101, 121]) \<and>
   ''argon2i'' = ModeArgon2i"
proof -
  let ?p = "\<lparr> Memory = 1, Iterations = 1, Parallelism = 1, SaltLength = 3, KeyLength = 3,
              Mode = [] \<rparr>"
  have kdf: "sample_kdf (bytes_of ''password'') [0, 1, 2] 1 1 1 3 = [112, 97, 115]"
    by (simp add: sample_kdf_def bytes_of_def)
  have enc: "encodeHash ModeArgon2id ?p [0, 1, 2] [112, 97, 115] =
      ''$argon2id$v=19$m=1,t=1,p=1$AAEC$cGFz''"
    by (simp add: encodeHash_def ModeArgon2id_def argon2_Version_def fmt_d_def fmt_u.simps
        digit_char_table base64_eval)
  have sp: "Split ''$$v=19$m=1,t=1,p=1$c2FsdA$a2V5'' CHR ''$'' =
     ['''', [], ''v=19'', ''m=1,t=1,p=1'', ''c2FsdA'', ''a2V5'']"
    by simp
  have v: "Sscanf ''v=19'' ''v=%d'' [IntPtr] = Some [IntVal 19]"
    by (simp add: scan_eval)
  have dec: "decodeHash ''$argon2i$v=19$m=1,t=1,p=1$c2FsdA$a2V5'' =
     Inr (\<lparr> Memory = 1, Iterations = 1, Parallelism = 1, SaltLength = 4, KeyLength = 3,
            Mode = ''argon2i'' \<rparr>, [115, 97, 108, 116], [107, 101, 121])"
    by (simp add: decode_eval)
  show ?thesis
    using empty_mode_handling [of ?p sample_kdf sample_kdf sample_rand "''password''" of_nat
        "''$$v=19$m=1,t=1,p=1$c2FsdA$a2V5''" "''''" "''v=19''" "''m=1,t=1,p=1''" "''c2FsdA''"
        "''a2V5''"]
      empty_mode_handling [of _ _ _ _ _ _ "''$argon2i$v=19$m=1,t=1,p=1$c2FsdA$a2V5''" _ _ _ _ _
        "\<lparr> Memory = 1, Iterations = 1, Parallelism = 1, SaltLength = 4, KeyLength = 3,
            Mode = ''argon2i'' \<rparr>" "[115, 97, 108, 116]" "[107, 101, 121]"]
      kdf enc sp v dec
    by (simp add: ModeArgon2i_def sample_rand_def upt_3)
qed

section \<open>Corrupt base64 payloads\<close>

text \<open>
  Claim C9 says that, for an input of six segments with valid mode, version and
  parameter segments, a salt or key segment that is not valid unpadded standard base64
  makes \<open>decodeHash\<close> fail with the decoding error. \<open>RawStdEncoding.DecodeString\<close>
  skips \<open>\r\<close> and \<open>\n\<close> wherever they stand: the salt segment below holds a newline,
  which is not in the alphabet, so the segment is the encoding of no byte string; yet
  the input decodes, to the salt of \<open>c2FsdA\<close>, and \<open>Verify\<close> reports a match.
\<close>

theorem decodeHash_lenient_payload_counterexample:
  "Split ''$argon2id$v=19$m=1,t=1,p=1$c2Fs\<newline>dA$a2V5'' CHR ''$'' =
     ['''', ''argon2id'', ''v=19'', ''m=1,t=1,p=1'', ''c2Fs\<newline>dA'', ''a2V5''] \<and>
   CHR 0x0A \<in> set ''c2Fs\<newline>dA'' \<and> CHR 0x0A \<notin> set encodeStd \<and>
   \<not> raw_std_base64 ''c2Fs\<newline>dA'' \<and>
   decodeHash ''$argon2id$v=19$m=1,t=1,p=1$c2Fs\<newline>dA$a2V5'' =
     Inr (\<lparr> Memory = 1, Iterations = 1, Parallelism = 1, SaltLength = 4, KeyLength = 3,
            Mode = ''argon2id'' \<rparr>, [115, 97, 108, 116], [107, 101, 121]) \<and>
   Verify sample_kdf sample_kdf ''key'' ''$argon2id$v=19$m=1,t=1,p=1$c2Fs\<newline>dA$a2V5'' =
     Return (True, None)"
proof -
  have nl: "CHR 0x0A \<in> set ''c2Fs\<newline>dA''" "CHR 0x0A \<notin> set encodeStd"
    by (simp_all add: encodeStd_def)
  then have raw: "\<not> raw_std_base64 ''c2Fs\<newline>dA''"
    using raw_std_base64_alphabet [of "''c2Fs\<newline>dA''"] by blast
  have dec: "decodeHash ''$argon2id$v=19$m=1,t=1,p=1$c2Fs\<newline>dA$a2V5'' =
     Inr (\<lparr> Memory = 1, Iterations = 1, Parallelism = 1, SaltLength = 4, KeyLength = 3,
            Mode = ''argon2id'' \<rparr>, [115, 97, 108, 116], [107, 101, 121])"
    by (simp add: decode_eval)
  have ver: "Verify sample_kdf sample_kdf ''key'' ''$argon2id$v=19$m=1,t=1,p=1$c2Fs\<newline>dA$a2V5'' =
     Return (True, None)"
    unfolding Verify_def dec
    by (simp add: ModeArgon2id_def ModeArgon2i_def argon2_call_def sample_kdf_def bytes_of_def
        ConstantTimeCompare_def ConstantTimeByteEq_def)
  show ?thesis
    using nl raw dec ver by simp
qed

text \<open>
  Claim C9, as amended: for an input of six segments whose version segment scans as
  \<open>v=19\<close>, whose mode segment is \<open>argon2id\<close> or \<open>argon2i\<close> and whose parameter segment
  scans with all three values at least 1, a payload is rejected exactly when it is
  \<open>corrupt_base64\<close>: it holds a byte that is neither in the alphabet nor \<open>\r\<close> or \<open>\n\<close>,
  or the number of its alphabet characters is 1 modulo 4. If the salt segment is so,
  \<open>decodeHash\<close> fails with the \<open>CorruptInputError\<close> that \<open>DecodeString\<close> gives for the
  salt segment; if the salt segment is not but the key segment is, with the one that
  \<open>DecodeString\<close> gives for the key segment. In both cases the error is none of
  \<open>ErrInvalidHash\<close>, \<open>ErrIncompatibleVersion\<close> and \<open>ErrUnsupportedMode\<close>, and \<open>Verify\<close>
  returns false together with that error. If neither segment is so, \<open>decodeHash\<close>
  succeeds with the decoded salt and key.
\<close>

theorem decodeHash_corrupt_payload:
  assumes "Split s CHR ''$'' = [v0, v1, v2, v3, v4, v5]"
    and "Sscanf v2 ''v=%d'' [IntPtr] = Some [IntVal 19]"
    and "v1 = ModeArgon2id \<or> v1 = ModeArgon2i"
    and "Sscanf v3 ''m=%d,t=%d,p=%d'' [Uint32Ptr, Uint32Ptr, Uint8Ptr] =
           Some [Uint32Val m, Uint32Val t, Uint8Val l]"
    and "1 \<le> m" and "1 \<le> t" and "1 \<le> l"
  shows "(corrupt_base64 v4 \<longrightarrow>
            (\<exists>k. DecodeString v4 = Inl (CorruptInputError k) \<and>
                 decodeHash s = Inl (CorruptInputError k) \<and>
                 Verify argon2_Key argon2_IDKey password s =
                   Return (False, Some (CorruptInputError k)))) \<and>
         (\<not> corrupt_base64 v4 \<and> corrupt_base64 v5 \<longrightarrow>
            (\<exists>k. DecodeString v5 = Inl (CorruptInputError k) \<and>
                 decodeHash s = Inl (CorruptInputError k) \<and>
                 Verify argon2_Key argon2_IDKey password s =
                   Return (False, Some (CorruptInputError k)))) \<and>
         (corrupt_base64 v4 \<or> corrupt_base64 v5 \<longrightarrow>
            decodeHash s \<noteq> Inl ErrInvalidHash \<and>
            decodeHash s \<noteq> Inl ErrIncompatibleVersion \<and>
            decodeHash s \<noteq> Inl ErrUnsupportedMode) \<and>
         (\<not> corrupt_base64 v4 \<and> \<not> corrupt_base64 v5 \<longrightarrow>
            (\<exists>salt hash. DecodeString v4 = Inr salt \<and> DecodeString v5 = Inr hash \<and>
               decodeHash s =
                 Inr (\<lparr> Memory = m, Iterations = t, Parallelism = l,
                        SaltLength = of_nat (length salt), KeyLength = of_nat (length hash),
                        Mode = v1 \<rparr>, salt, hash)))"
proof -
  from assms(5-7) have ok: "\<not> (m < 1 \<or> t < 1 \<or> l < 1)"
    by (simp only: de_Morgan_disj not_less)
  note eq = decodeHash_params_parsed [OF assms(1-4)]
  have salt_bad: "\<exists>k. DecodeString v4 = Inl (CorruptInputError k) \<and>
        decodeHash s = Inl (CorruptInputError k)" if "corrupt_base64 v4"
  proof -
    from DecodeString_corrupt [OF that] obtain k where "DecodeString v4 = Inl (CorruptInputError k)" ..
    with eq ok show ?thesis by simp
  qed
  have key_bad: "\<exists>k. DecodeString v5 = Inl (CorruptInputError k) \<and>
        decodeHash s = Inl (CorruptInputError k)" if "\<not> corrupt_base64 v4" "corrupt_base64 v5"
  proof -
    from DecodeString_not_corrupt [OF that(1)] obtain salt where "DecodeString v4 = Inr salt" ..
    moreover from DecodeString_corrupt [OF that(2)] obtain k where
      "DecodeString v5 = Inl (CorruptInputError k)" ..
    ultimately show ?thesis using eq ok by simp
  qed
  have good: "\<exists>salt hash. DecodeString v4 = Inr salt \<and> DecodeString v5 = Inr hash \<and>
       decodeHash s =
         Inr (\<lparr> Memory = m, Iterations = t, Parallelism = l,
                SaltLength = of_nat (length salt), KeyLength = of_nat (length hash),
                Mode = v1 \<rparr>, salt, hash)" if "\<not> corrupt_base64 v4" "\<not> corrupt_base64 v5"
  proof -
    from DecodeString_not_corrupt [OF that(1)] obtain salt where "DecodeString v4 = Inr salt" ..
    moreover from DecodeString_not_corrupt [OF that(2)] obtain hash where
      "DecodeString v5 = Inr hash" ..
    ultimately show ?thesis using eq ok by simp
  qed
  show ?thesis
  proof (intro conjI impI)
    assume "corrupt_base64 v4"
    from salt_bad [OF this] show "\<exists>k. DecodeString v4 = Inl (CorruptInputError k) \<and>
        decodeHash s = Inl (CorruptInputError k) \<and>
        Verify argon2_Key argon2_IDKey password s = Return (False, Some (CorruptInputError k))"
      by (auto simp: Verify_decode_error)
  next
    assume "\<not> corrupt_base64 v4 \<and> corrupt_base64 v5"
    then have "\<exists>k. DecodeString v5 = Inl (CorruptInputError k) \<and>
        decodeHash s = Inl (CorruptInputError k)"
      using key_bad by blast
    then show "\<exists>k. DecodeString v5 = Inl (CorruptInputError k) \<and>
        decodeHash s = Inl (CorruptInputError k) \<and>
        Verify argon2_Key argon2_IDKey password s = Return (False, Some (CorruptInputError k))"
      by (auto simp: Verify_decode_error)
  next
    assume "corrupt_base64 v4 \<or> corrupt_base64 v5"
    then have e: "\<exists>k. decodeHash s = Inl (CorruptInputError k)"
      using salt_bad key_bad by blast
    from e show "decodeHash s \<noteq> Inl ErrInvalidHash" by auto
    from e show "decodeHash s \<noteq> Inl ErrIncompatibleVersion" by auto
    from e show "decodeHash s \<noteq> Inl ErrUnsupportedMode" by auto
  next
    assume "\<not> corrupt_base64 v4 \<and> \<not> corrupt_base64 v5"
    then show "\<exists>salt hash. DecodeString v4 = Inr salt \<and> DecodeString v5 = Inr hash \<and>
       decodeHash s =
         Inr (\<lparr> Memory = m, Iterations = t, Parallelism = l,
                SaltLength = of_nat (length salt), KeyLength = of_nat (length hash),
                Mode = v1 \<rparr>, salt, hash)"
      using good by blast
  qed
qed

theorem decodeHash_corrupt_payload_witness:
  "Split ''$argon2id$v=19$m=65536,t=1,p=4$invalid!!!base64$dGVzdGhhc2g'' CHR ''$'' =
     ['''', ''argon2id'', ''v=19'', ''m=65536,t=1,p=4'', ''invalid!!!base64'', ''dGVzdGhhc2g''] \<and>
   Split ''$argon2i$v=19$m=65536,t=1,p=4$c2FsdA$a2V5a'' CHR ''$'' =
     ['''', ''argon2i'', ''v=19'', ''m=65536,t=1,p=4'', ''c2FsdA'', ''a2V5a''] \<and>
   Sscanf ''v=19'' ''v=%d'' [IntPtr] = Some [IntVal 19] \<and>
   Sscanf ''m=65536,t=1,p=4'' ''m=%d,t=%d,p=%d'' [Uint32Ptr, Uint32Ptr, Uint8Ptr] =
     Some [Uint32Val 65536, Uint32Val 1, Uint8Val 4] \<and>
   corrupt_base64 ''invalid!!!base64'' \<and>
   \<not> corrupt_base64 ''c2FsdA'' \<and> corrupt_base64 ''a2V5a'' \<and>
   DecodeString ''invalid!!!base64'' = Inl (CorruptInputError 7) \<and>
   decodeHash ''$argon2id$v=19$m=65536,t=1,p=4$invalid!!!base64$dGVzdGhhc2g'' =
     Inl (CorruptInputError 7) \<and>
   Verify sample_kdf sample_kdf ''password''
     ''$argon2id$v=19$m=65536,t=1,p=4$invalid!!!base64$dGVzdGhhc2g'' =
     Return (False, Some (CorruptInputError 7)) \<and>
   DecodeString ''a2V5a'' = Inl (CorruptInputError 4) \<and>
   decodeHash ''$argon2i$v=19$m=65536,t=1,p=4$c2FsdA$a2V5a'' = Inl (CorruptInputError 4) \<and>
   Verify sample_kdf sample_kdf ''password'' ''$argon2i$v=19$m=65536,t=1,p=4$c2FsdA$a2V5a'' =
     Return (False, Some (CorruptInputError 4))"
proof -
  have d: "DecodeString ''invalid!!!base64'' = Inl (CorruptInputError 7)"
    "DecodeString ''a2V5a'' = Inl (CorruptInputError 4)"
    by (simp_all add: base64_eval)
  have c: "corrupt_base64 ''invalid!!!base64''" "\<not> corrupt_base64 ''c2FsdA''"
    "corrupt_base64 ''a2V5a''"
    by (simp_all add: corrupt_base64_def encodeStd_def)
  have sp: "Split ''$argon2id$v=19$m=65536,t=1,p=4$invalid!!!base64$dGVzdGhhc2g'' CHR ''$'' =
     ['''', ''argon2id'', ''v=19'', ''m=65536,t=1,p=4'', ''invalid!!!base64'', ''dGVzdGhhc2g'']"
    "Split ''$argon2i$v=19$m=65536,t=1,p=4$c2FsdA$a2V5a'' CHR ''$'' =
     ['''', ''argon2i'', ''v=19'', ''m=65536,t=1,p=4'', ''c2FsdA'', ''a2V5a'']"
    by simp_all
  have v: "Sscanf ''v=19'' ''v=%d'' [IntPtr] = Some [IntVal 19]"
    by (simp add: scan_eval)
  have ps: "Sscanf ''m=65536,t=1,p=4'' ''m=%d,t=%d,p=%d'' [Uint32Ptr, Uint32Ptr, Uint8Ptr] =
     Some [Uint32Val 65536, Uint32Val 1, Uint8Val 4]"
    by (simp add: scan_eval)
  show ?thesis
    using decodeHash_corrupt_payload [OF sp(1) v _ ps, of sample_kdf sample_kdf "''password''"]
      decodeHash_corrupt_payload [OF sp(2) v _ ps, of sample_kdf sample_kdf "''password''"]
      d c sp v ps
    by (simp add: ModeArgon2id_def ModeArgon2i_def)
qed

section \<open>Round trip of encoder and decoder\<close>

text \<open>
  Claim C2: for every \<open>Params\<close> with mode \<open>argon2id\<close> or \<open>argon2i\<close> and memory,
  iterations and parallelism at least 1, and for every salt and key, \<open>decodeHash\<close>
  succeeds on the string that the encoder writes (lines 122 to 127) and returns the same
  mode, memory, iterations and parallelism, the same salt bytes and the same key bytes;
  the two length fields are the lengths of the decoded salt and key, as \<open>uint32\<close>.
\<close>

theorem decodeHash_encodeHash:
  assumes "Mode p = ModeArgon2id \<or> Mode p = ModeArgon2i"
    and "1 \<le> Memory p" and "1 \<le> Iterations p" and "1 \<le> Parallelism p"
  shows "decodeHash (encodeHash (Mode p) p salt key) =
     Inr (p\<lparr> SaltLength := of_nat (length salt), KeyLength := of_nat (length key) \<rparr>, salt, key)"
  using assms by (rule decodeHash_encodeHash_roundtrip)

theorem decodeHash_encodeHash_witness:
  "decodeHash (encodeHash ''argon2i''
       \<lparr> Memory = 65536, Iterations = 3, Parallelism = 4, SaltLength = 16, KeyLength = 32,
         Mode = ''argon2i'' \<rparr> [115, 97, 108, 116] [107, 101, 121]) =
     Inr (\<lparr> Memory = 65536, Iterations = 3, Parallelism = 4, SaltLength = 4, KeyLength = 3,
            Mode = ''argon2i'' \<rparr>, [115, 97, 108, 116], [107, 101, 121]) \<and>
   encodeHash ''argon2i''
       \<lparr> Memory = 65536, Iterations = 3, Parallelism = 4, SaltLength = 16, KeyLength = 32,
         Mode = ''argon2i'' \<rparr> [115, 97, 108, 116] [107, 101, 121] =
     ''$argon2i$v=19$m=65536,t=3,p=4$c2FsdA$a2V5''"
  using decodeHash_encodeHash [of
        "\<lparr> Memory = 65536, Iterations = 3, Parallelism = 4, SaltLength = 16, KeyLength = 32,
           Mode = ''argon2i'' \<rparr>" "[115, 97, 108, 116]" "[107, 101, 121]"]
  by (simp add: ModeArgon2i_def encodeHash_sample)

section \<open>Verify on the output of HashWithParams\<close>




section \<open>Segment 0\<close>

text \<open>
  Claim C10: \<open>decodeHash\<close> never examines segment 0, the text before the first \<open>$\<close>.
  An input with any text without \<open>$\<close> in front of its first \<open>$\<close> decodes exactly as
  the input without that text, so a string that does not begin with \<open>$\<close> is accepted
  when its segments 1 to 5 pass the checks.
\<close>

theorem decodeHash_ignores_segment_0:
  "CHR ''$'' \<notin> set pre \<Longrightarrow>
   decodeHash (pre @ CHR ''$'' # rest) = decodeHash (CHR ''$'' # rest)"
  by (simp add: decodeHash_def Split_append Let_def
      cong: option.case_cong list.case_cong scanned.case_cong if_cong sum.case_cong)

theorem decodeHash_ignores_segment_0_witness:
  "CHR ''$'' \<notin> set ''xyz'' \<and>
   decodeHash ''xyz$argon2i$v=19$m=1,t=1,p=1$c2FsdA$a2V5'' =
     decodeHash ''$argon2i$v=19$m=1,t=1,p=1$c2FsdA$a2V5'' \<and>
   decodeHash ''xyz$argon2i$v=19$m=1,t=1,p=1$c2FsdA$a2V5'' =
     Inr (\<lparr> Memory = 1, Iterations = 1, Parallelism = 1, SaltLength = 4, KeyLength = 3,
            Mode = ''argon2i'' \<rparr>, [115, 97, 108, 116], [107, 101, 121])"
proof -
  have "decodeHash ''$argon2i$v=19$m=1,t=1,p=1$c2FsdA$a2V5'' =
     Inr (\<lparr> Memory = 1, Iterations = 1, Parallelism = 1, SaltLength = 4, KeyLength = 3,
            Mode = ''argon2i'' \<rparr>, [115, 97, 108, 116], [107, 101, 121])"
    by (simp add: decode_eval)
  with decodeHash_ignores_segment_0 [of "''xyz''" "''argon2i$v=19$m=1,t=1,p=1$c2FsdA$a2V5''"]
  show ?thesis by simp
qed

end
